theory Spec2Isabelle
  imports Main "HOL-Library.Char_ord" "HOL-Library.List_Lexorder"
begin

section \<open>Process termination and the optional wrapper\<close>

text \<open>
  The library ends the process with \<^verbatim>\<open>exit(status)\<close> after writing to the diagnostic
  stream. A run of the model that reaches such a call returns \<open>Inl (Exit status text)\<close>.
  Reading a vector past its end (\<^verbatim>\<open>operator[]\<close>, \<^verbatim>\<open>back()\<close> of an empty vector) is
  undefined in C++; the model returns \<open>Inl Undefined_behaviour\<close> there.
  \<^verbatim>\<open>fire::optional<T>\<close> is \<open>'a option\<close>.
\<close>

datatype diagnostic = Error_line string | Help_screen | Silent

datatype halt = Exit int diagnostic | Undefined_behaviour

definition failure_code :: int where
  "failure_code = 1"

definition instant_assert :: "bool \<Rightarrow> string \<Rightarrow> bool \<Rightarrow> halt + unit" where
  "instant_assert pass msg programmer_side =
     (if pass then Inr ()
      else Inl (Exit failure_code
             (if msg \<noteq> []
              then Error_line (''Error'' @ (if programmer_side then '' (programmer side)'' else [])
                               @ '': '' @ msg)
              else Silent)))"

section \<open>Characters and decimal text\<close>

definition isdigit :: "char \<Rightarrow> bool" where
  "isdigit c = (48 \<le> (of_char c :: nat) \<and> (of_char c :: nat) \<le> 57)"

definition isspace :: "char \<Rightarrow> bool" where
  "isspace c = ((of_char c :: nat) = 32 \<or> (9 \<le> (of_char c :: nat) \<and> (of_char c :: nat) \<le> 13))"

text \<open>\<^verbatim>\<open>tolower\<close> in the "C" locale: only the 26 ASCII capitals change.\<close>

definition tolower :: "char \<Rightarrow> char" where
  "tolower c = (if 65 \<le> (of_char c :: nat) \<and> (of_char c :: nat) \<le> 90
                then char_of ((of_char c :: nat) + 32) else c)"

text \<open>\<^verbatim>\<open>std::to_string\<close> on an integer: decimal digits, a minus sign for negatives.\<close>

fun digits_of_nat :: "nat \<Rightarrow> string" where
  "digits_of_nat n =
     (if n < 10 then [char_of (48 + n)]
      else digits_of_nat (n div 10) @ [char_of (48 + n mod 10)])"

declare digits_of_nat.simps [simp del]

definition to_string :: "int \<Rightarrow> string" where
  "to_string v = (if v < 0 then CHR ''-'' # digits_of_nat (nat (- v)) else digits_of_nat (nat v))"

fun count_hyphens :: "string \<Rightarrow> nat" where
  "count_hyphens [] = 0"
| "count_hyphens (c # s) = (if c = CHR ''-'' then Suc (count_hyphens s) else 0)"

section \<open>Identifier\<close>

record fire_identifier =
  short_name :: "string option"
  long_name :: "string option"
  pos :: "int option"
  vector :: bool
  help_str :: string
  longer :: string

definition prepend_hyphens :: "string \<Rightarrow> string" where
  "prepend_hyphens name =
     (if length name = 1 then ''-'' @ name
      else if length name \<ge> 2 then ''--'' @ name
      else name)"

definition check_name :: "string \<Rightarrow> halt + unit" where
  "check_name name =
     (case instant_assert (count_hyphens name = 0)
             (''argument '' @ name @ '' has hyphens prefixed in declaration'') True of
        Inl e \<Rightarrow> Inl e
      | Inr _ \<Rightarrow>
     (case instant_assert (length name \<ge> 1) ''name must contain at least one character'' True of
        Inl e \<Rightarrow> Inl e
      | Inr _ \<Rightarrow>
        instant_assert (length name \<ge> 2 \<or> \<not> isdigit (hd name))
          (''single character name must not be a digit ('' @ name @ '')'') True))"

text \<open>The six constructors of \<^verbatim>\<open>identifier\<close>.\<close>

definition identifier_vector :: fire_identifier where
  "identifier_vector =
     \<lparr>short_name = None, long_name = None, pos = None, vector = True,
      help_str = ''...'', longer = ''...''\<rparr>"

definition identifier_name :: "string \<Rightarrow> halt + fire_identifier" where
  "identifier_name name =
     (case check_name name of
        Inl e \<Rightarrow> Inl e
      | Inr _ \<Rightarrow>
        (let sn = (if length name = 1 then Some name else None);
             ln = (if length name = 1 then None else Some name);
             h = (if ln \<noteq> None then ''--'' @ name else ''-'' @ name)
         in Inr \<lparr>short_name = sn, long_name = ln, pos = None, vector = False,
                 help_str = h, longer = h\<rparr>))"

definition identifier_pos :: "int \<Rightarrow> fire_identifier" where
  "identifier_pos p =
     \<lparr>short_name = None, long_name = None, pos = Some p, vector = False,
      help_str = ''<'' @ to_string p @ ''>'', longer = ''<'' @ to_string p @ ''>''\<rparr>"

definition identifier_names :: "string \<Rightarrow> string \<Rightarrow> halt + fire_identifier" where
  "identifier_names name1_c name2_c =
     (case check_name name1_c of
        Inl e \<Rightarrow> Inl e
      | Inr _ \<Rightarrow>
     (case check_name name2_c of
        Inl e \<Rightarrow> Inl e
      | Inr _ \<Rightarrow>
        (let name1 = (if length name2_c < length name1_c then name2_c else name1_c);
             name2 = (if length name2_c < length name1_c then name1_c else name2_c)
         in
     (case instant_assert (length name1 = 1)
             ''one of the two names given must be a shorthand (single character)'' True of
        Inl e \<Rightarrow> Inl e
      | Inr _ \<Rightarrow>
     (case instant_assert (length name2 \<ge> 2)
             ''one of the two names given must be longer than one character'' True of
        Inl e \<Rightarrow> Inl e
      | Inr _ \<Rightarrow>
        Inr \<lparr>short_name = Some name1, long_name = Some name2, pos = None, vector = False,
             help_str = ''-'' @ name1 @ ''|--'' @ name2, longer = ''--'' @ name2\<rparr>)))))"

text \<open>\<^verbatim>\<open>identifier(int pos, const char *help)\<close> and \<^verbatim>\<open>identifier(const char *help, int pos)\<close>
  build the same value.\<close>

definition identifier_pos_help :: "int \<Rightarrow> string \<Rightarrow> halt + fire_identifier" where
  "identifier_pos_help p h =
     (case check_name h of
        Inl e \<Rightarrow> Inl e
      | Inr _ \<Rightarrow>
        Inr \<lparr>short_name = None, long_name = None, pos = Some p, vector = False,
             help_str = h, longer = h\<rparr>)"

text \<open>\<^verbatim>\<open>identifier::operator<\<close>. \<^verbatim>\<open>std::string\<close> compares bytes lexicographically, which is
  the order of \<open>string\<close> here.\<close>

definition value_or :: "'a option \<Rightarrow> 'a \<Rightarrow> 'a" where
  "value_or opt def = (case opt of Some v \<Rightarrow> v | None \<Rightarrow> def)"

definition identifier_less :: "fire_identifier \<Rightarrow> fire_identifier \<Rightarrow> bool" where
  "identifier_less a b =
     (let name = map tolower (value_or (long_name a) (value_or (short_name a) []));
          other_name = map tolower (value_or (long_name b) (value_or (short_name b) []))
      in if name \<noteq> other_name then name < other_name
         else value_or (pos a) 1000000 < value_or (pos b) 1000000)"

definition overlaps :: "fire_identifier \<Rightarrow> fire_identifier \<Rightarrow> bool" where
  "overlaps a b =
     (if long_name a \<noteq> None \<and> long_name b \<noteq> None \<and> the (long_name a) = the (long_name b) then True
      else if short_name a \<noteq> None \<and> short_name b \<noteq> None \<and> the (short_name a) = the (short_name b)
        then True
      else if pos a \<noteq> None \<and> pos b \<noteq> None \<and> the (pos a) = the (pos b) then True
      else False)"

definition contains_name :: "fire_identifier \<Rightarrow> string \<Rightarrow> bool" where
  "contains_name a name =
     (if short_name a \<noteq> None \<and> name = the (short_name a) then True
      else if long_name a \<noteq> None \<and> name = the (long_name a) then True
      else False)"

definition contains_pos :: "fire_identifier \<Rightarrow> int \<Rightarrow> bool" where
  "contains_pos a p = (if pos a \<noteq> None \<and> p = the (pos a) then True else False)"

section \<open>The slot that keeps the first error in identifier order\<close>

record first_slot =
  slot_order :: fire_identifier
  slot_value :: string
  slot_empty :: bool

definition first_new :: first_slot where
  "first_new = \<lparr>slot_order = identifier_vector, slot_value = [], slot_empty = True\<rparr>"

definition first_set :: "fire_identifier \<Rightarrow> string \<Rightarrow> first_slot \<Rightarrow> first_slot" where
  "first_set ord val s =
     (if slot_empty s \<or> identifier_less ord (slot_order s)
      then \<lparr>slot_order = ord, slot_value = val, slot_empty = False\<rparr>
      else s)"

section \<open>The matcher\<close>

datatype arg_type = string_t | bool_t | none_t

record matcher =
  executable :: string
  positional :: "string list"
  named :: "(string \<times> string option) list"
  queried :: "fire_identifier list"
  deferred_error :: first_slot
  main_argc :: int
  space_assignment :: bool
  strict :: bool
  help_flag :: bool

text \<open>The default-constructed matcher, with the three values the constructor stores
  before it parses.\<close>

definition matcher_new :: "int \<Rightarrow> bool \<Rightarrow> bool \<Rightarrow> matcher" where
  "matcher_new argc_main sa st =
     \<lparr>executable = [], positional = [], named = [], queried = [],
      deferred_error = first_new, main_argc = argc_main, space_assignment = sa,
      strict = st, help_flag = False\<rparr>"

definition deferred_assert ::
  "matcher \<Rightarrow> fire_identifier \<Rightarrow> bool \<Rightarrow> string \<Rightarrow> halt + (bool \<times> matcher)" where
  "deferred_assert m ident pass msg =
     (if \<not> strict m then
        (case instant_assert pass msg False of
           Inl e \<Rightarrow> Inl e
         | Inr _ \<Rightarrow> Inr (pass, m))
      else if \<not> pass then
        Inr (pass, m\<lparr>deferred_error := first_set ident msg (deferred_error m)\<rparr>)
      else Inr (pass, m))"

fun assert_no_overlap :: "fire_identifier list \<Rightarrow> fire_identifier \<Rightarrow> halt + unit" where
  "assert_no_overlap [] ident = Inr ()"
| "assert_no_overlap (it # its) ident =
     (case instant_assert (\<not> overlaps it ident)
             (''double query for argument '' @ longer ident) True of
        Inl e \<Rightarrow> Inl e
      | Inr _ \<Rightarrow> assert_no_overlap its ident)"

fun find_named :: "(string \<times> string option) list \<Rightarrow> fire_identifier \<Rightarrow> (string \<times> arg_type) option" where
  "find_named [] ident = None"
| "find_named (it # its) ident =
     (if contains_name ident (fst it) then
        (case snd it of
           Some v \<Rightarrow> Some (v, string_t)
         | None \<Rightarrow> Some ([], bool_t))
      else find_named its ident)"

text \<open>\<^verbatim>\<open>size_t pos = id.get_pos().value()\<close> converts the \<^verbatim>\<open>int\<close> modulo \<open>2 ^ 64\<close>.\<close>

definition to_size_t :: "int \<Rightarrow> nat" where
  "to_size_t i = nat (i mod 2 ^ 64)"

definition vector_at :: "'a list \<Rightarrow> nat \<Rightarrow> halt + 'a" where
  "vector_at xs i = (if i < length xs then Inr (xs ! i) else Inl Undefined_behaviour)"

definition get_and_mark_as_queried ::
  "matcher \<Rightarrow> fire_identifier \<Rightarrow> halt + ((string \<times> arg_type) \<times> matcher)" where
  "get_and_mark_as_queried m ident =
     (case (if space_assignment m
            then instant_assert (pos ident = None)
                   ''positional argument used with space assignement enabled: (disable space assignement by calling FIRE_NO_SPACE_ASSIGNMENT(...) instead of FIRE(...))''
                   True
            else Inr ()) of
        Inl e \<Rightarrow> Inl e
      | Inr _ \<Rightarrow>
     (case assert_no_overlap (queried m) ident of
        Inl e \<Rightarrow> Inl e
      | Inr _ \<Rightarrow>
        (let m1 = (if strict m then m\<lparr>queried := queried m @ [ident]\<rparr> else m)
         in case find_named (named m1) ident of
              Some r \<Rightarrow> Inr (r, m1)
            | None \<Rightarrow>
                (if pos ident \<noteq> None then
                   (let p = to_size_t (the (pos ident))
                    in if p \<ge> length (positional m1) then Inr (([], none_t), m1)
                       else (case vector_at (positional m1) p of
                               Inl e \<Rightarrow> Inl e
                             | Inr s \<Rightarrow> Inr ((s, string_t), m1)))
                 else Inr (([], none_t), m1)))))"

section \<open>Token classification\<close>

text \<open>\<^verbatim>\<open>s[i]\<close> on a \<^verbatim>\<open>std::string\<close>: the character at \<open>i\<close>, and the terminating null
  character at \<open>i = size\<close>.\<close>

definition str_at :: "string \<Rightarrow> nat \<Rightarrow> char" where
  "str_at s i = (if i < length s then s ! i else CHR 0x00)"

text \<open>\<^verbatim>\<open>s.find(c)\<close>: the first index of \<open>c\<close>, or \<open>None\<close> for \<^verbatim>\<open>npos\<close>.\<close>

fun find_char :: "string \<Rightarrow> char \<Rightarrow> nat option" where
  "find_char [] c = None"
| "find_char (x # xs) c =
     (if x = c then Some 0
      else (case find_char xs c of None \<Rightarrow> None | Some i \<Rightarrow> Some (Suc i)))"

text \<open>The loop of \<^verbatim>\<open>separate_named_positional\<close>; \<open>nm\<close>, \<open>ps\<close> and \<open>to_named\<close> are its
  three local variables.\<close>

fun separate_loop ::
  "matcher \<Rightarrow> string list \<Rightarrow> string list \<Rightarrow> bool \<Rightarrow> string list
     \<Rightarrow> halt + ((string list \<times> string list) \<times> matcher)" where
  "separate_loop m nm ps to_named [] = Inr ((nm, ps), m)"
| "separate_loop m nm ps to_named (s # raw) =
     (let hyphens = count_hyphens s;
          name_size = int (length s) - int hyphens
      in case deferred_assert m identifier_vector (hyphens \<le> 2) (''too many hyphens: '' @ s) of
           Inl e \<Rightarrow> Inl e
         | Inr r \<Rightarrow>
             (if hyphens = 2 \<or> (hyphens = 1 \<and> name_size \<ge> 1 \<and> \<not> isdigit (str_at s 1)) then
                separate_loop (snd r) (nm @ [s]) ps
                  ((hyphens \<ge> 2 \<or> name_size = 1) \<and> find_char s CHR ''='' = None) raw
              else if space_assignment (snd r) \<and> to_named then
                separate_loop (snd r) (nm @ [s]) ps False raw
              else separate_loop (snd r) nm (ps @ [s]) to_named raw))"

definition separate_named_positional ::
  "matcher \<Rightarrow> string list \<Rightarrow> halt + ((string list \<times> string list) \<times> matcher)" where
  "separate_named_positional m raw = separate_loop m [] [] False raw"

fun split_loop ::
  "matcher \<Rightarrow> (string \<times> bool) list \<Rightarrow> string list \<Rightarrow> halt + ((string \<times> bool) list \<times> matcher)" where
  "split_loop m split [] = Inr (split, m)"
| "split_loop m split (hyphened_name # rest) =
     (let hyphens = count_hyphens hyphened_name
      in case find_char hyphened_name CHR ''='' of
           None \<Rightarrow> split_loop m (split @ [(hyphened_name, False)]) rest
         | Some eq \<Rightarrow>
             (let name_size = int eq - int hyphens
              in case deferred_assert m identifier_vector (name_size = 1 \<or> hyphens \<ge> 2)
                        (''expanding single-hyphen arguments can'' @ [CHR 0x27] @ ''t have value (''
                         @ hyphened_name @ '')'') of
                   Inl e \<Rightarrow> Inl e
                 | Inr r \<Rightarrow>
                     (if \<not> fst r then split_loop (snd r) split rest
                      else split_loop (snd r)
                             (split @ [(take eq hyphened_name, False),
                                       (drop (eq + 1) hyphened_name, True)]) rest)))"

definition split_equations ::
  "matcher \<Rightarrow> string list \<Rightarrow> halt + ((string \<times> bool) list \<times> matcher)" where
  "split_equations m nm = split_loop m [] nm"

text \<open>\<^verbatim>\<open>args.back().second = v\<close>; \<^verbatim>\<open>back()\<close> of an empty vector is undefined.\<close>

definition set_back ::
  "(string \<times> string option) list \<Rightarrow> string \<Rightarrow> halt + (string \<times> string option) list" where
  "set_back args v =
     (if args = [] then Inl Undefined_behaviour
      else Inr (butlast args @ [(fst (last args), Some v)]))"

fun assign_loop ::
  "matcher \<Rightarrow> (string \<times> string option) list \<Rightarrow> (string \<times> bool) list
     \<Rightarrow> halt + ((string \<times> string option) list \<times> matcher)" where
  "assign_loop m args [] = Inr (args, m)"
| "assign_loop m args (p # rest) =
     (let hyphened_name = fst p;
          certainly_value = snd p;
          hyphens = count_hyphens hyphened_name;
          name = drop hyphens hyphened_name
      in if certainly_value then
           (case set_back args hyphened_name of
              Inl e \<Rightarrow> Inl e
            | Inr args' \<Rightarrow> assign_loop m args' rest)
         else if hyphens = 2 then
           (case deferred_assert m identifier_vector (length name \<ge> 2)
                   (''single character parameter '' @ hyphened_name
                    @ '' must have exactly one hyphen'') of
              Inl e \<Rightarrow> Inl e
            | Inr r \<Rightarrow> assign_loop (snd r) (args @ [(name, None)]) rest)
         else if hyphens = 1 then
           (if isdigit (str_at name 0) then
              (case set_back args hyphened_name of
                 Inl e \<Rightarrow> Inl e
               | Inr args' \<Rightarrow> assign_loop m args' rest)
            else assign_loop m (args @ map (\<lambda>c. ([c], None)) name) rest)
         else if hyphens = 0 then
           (case set_back args name of
              Inl e \<Rightarrow> Inl e
            | Inr args' \<Rightarrow> assign_loop m args' rest)
         else assign_loop m args rest)"

definition assign_named_values ::
  "matcher \<Rightarrow> (string \<times> bool) list \<Rightarrow> halt + ((string \<times> string option) list \<times> matcher)" where
  "assign_named_values m split = assign_loop m [] split"

text \<open>The double loop of \<^verbatim>\<open>parse\<close> over \<open>j < i\<close>: \<open>earlier\<close> holds the names at the
  indices below \<open>i\<close>.\<close>

fun occurrence_inner :: "matcher \<Rightarrow> string \<Rightarrow> string list \<Rightarrow> halt + matcher" where
  "occurrence_inner m n [] = Inr m"
| "occurrence_inner m n (n' # earlier) =
     (case deferred_assert m identifier_vector (n \<noteq> n')
             (''multiple occurrences of argument '' @ prepend_hyphens n) of
        Inl e \<Rightarrow> Inl e
      | Inr r \<Rightarrow> occurrence_inner (snd r) n earlier)"

fun occurrence_outer ::
  "matcher \<Rightarrow> string list \<Rightarrow> (string \<times> string option) list \<Rightarrow> halt + matcher" where
  "occurrence_outer m earlier [] = Inr m"
| "occurrence_outer m earlier (it # its) =
     (case occurrence_inner m (fst it) earlier of
        Inl e \<Rightarrow> Inl e
      | Inr m1 \<Rightarrow> occurrence_outer m1 (earlier @ [fst it]) its)"

text \<open>\<^verbatim>\<open>parse(argc, argv)\<close>; \<open>argv\<close> is the whole array, the executable first. An empty
  array makes \<^verbatim>\<open>argv[0]\<close> the null pointer, whose conversion to a string is undefined.\<close>

definition parse :: "matcher \<Rightarrow> string list \<Rightarrow> halt + matcher" where
  "parse m argv =
     (case argv of
        [] \<Rightarrow> Inl Undefined_behaviour
      | exe # raw \<Rightarrow>
     (case separate_named_positional (m\<lparr>executable := exe\<rparr>) raw of
        Inl e \<Rightarrow> Inl e
      | Inr r1 \<Rightarrow>
     (case split_equations ((snd r1)\<lparr>positional := snd (fst r1)\<rparr>) (fst (fst r1)) of
        Inl e \<Rightarrow> Inl e
      | Inr r2 \<Rightarrow>
     (case assign_named_values (snd r2) (fst r2) of
        Inl e \<Rightarrow> Inl e
      | Inr r3 \<Rightarrow>
     (case occurrence_outer ((snd r3)\<lparr>named := fst r3\<rparr>) [] (fst r3) of
        Inl e \<Rightarrow> Inl e
      | Inr m4 \<Rightarrow>
          (if space_assignment m4 then
             (case deferred_assert m4 identifier_vector (positional m4 = [])
                     ''positional arguments given, but not accepted'' of
                Inl e \<Rightarrow> Inl e
              | Inr r5 \<Rightarrow> Inr (snd r5))
           else Inr m4))))))"

section \<open>End-of-run validation\<close>

fun check_named_loop ::
  "fire_identifier list \<Rightarrow> (string \<times> string option) list \<Rightarrow> int \<times> string \<Rightarrow> int \<times> string" where
  "check_named_loop qs [] acc = acc"
| "check_named_loop qs (it # its) acc =
     (if list_ex (\<lambda>jt. contains_name jt (fst it)) qs then check_named_loop qs its acc
      else check_named_loop qs its (fst acc + 1, snd acc @ '' '' @ prepend_hyphens (fst it)))"

definition check_named :: "matcher \<Rightarrow> halt + matcher" where
  "check_named m =
     (let r = check_named_loop (queried m) (named m) (0, [])
      in case deferred_assert m identifier_vector (snd r = [])
                (''invalid argument'' @ (if fst r > 1 then ''s'' else []) @ snd r) of
           Inl e \<Rightarrow> Inl e
         | Inr r' \<Rightarrow> Inr (snd r'))"

fun check_positional_loop ::
  "fire_identifier list \<Rightarrow> nat list \<Rightarrow> int \<times> string \<Rightarrow> int \<times> string" where
  "check_positional_loop qs [] acc = acc"
| "check_positional_loop qs (i # is) acc =
     (if list_ex (\<lambda>it. contains_pos it (int i)) qs then check_positional_loop qs is acc
      else check_positional_loop qs is (fst acc + 1, snd acc @ '' '' @ to_string (int i)))"

definition check_positional :: "matcher \<Rightarrow> halt + matcher" where
  "check_positional m =
     (let r = check_positional_loop (queried m) [0 ..< length (positional m)] (0, [])
      in case deferred_assert m identifier_vector (snd r = [])
                (''invalid positional argument'' @ (if fst r > 1 then ''s'' else []) @ snd r) of
           Inl e \<Rightarrow> Inl e
         | Inr r' \<Rightarrow> Inr (snd r'))"

text \<open>\<^verbatim>\<open>check(dec_main_argc)\<close>. Printing the help is the diagnostic \<open>Help_screen\<close>; its
  layout is not modelled.\<close>

definition check :: "matcher \<Rightarrow> bool \<Rightarrow> halt + matcher" where
  "check m dec_main_argc =
     (let m1 = m\<lparr>main_argc := main_argc m - (if dec_main_argc then 1 else 0)\<rparr>
      in if \<not> strict m1 \<or> main_argc m1 > 0 then Inr m1
         else if help_flag m1 then Inl (Exit 0 Help_screen)
         else
           (case check_named m1 of
              Inl e \<Rightarrow> Inl e
            | Inr m2 \<Rightarrow>
           (case check_positional m2 of
              Inl e \<Rightarrow> Inl e
            | Inr m3 \<Rightarrow>
                (if \<not> slot_empty (deferred_error m3)
                 then Inl (Exit failure_code
                             (Error_line (''Error: '' @ slot_value (deferred_error m3))))
                 else Inr m3))))"

text \<open>The constructor \<^verbatim>\<open>_matcher(argc, argv, main_argc, space_assignment, strict)\<close>.\<close>

definition matcher_init :: "string list \<Rightarrow> int \<Rightarrow> bool \<Rightarrow> bool \<Rightarrow> halt + matcher" where
  "matcher_init argv argc_main sa st =
     (case parse (matcher_new argc_main sa st) argv of
        Inl e \<Rightarrow> Inl e
      | Inr m1 \<Rightarrow>
     (case identifier_names ''h'' ''help'' of
        Inl e \<Rightarrow> Inl e
      | Inr hid \<Rightarrow>
     (case get_and_mark_as_queried m1 hid of
        Inl e \<Rightarrow> Inl e
      | Inr r \<Rightarrow> check ((snd r)\<lparr>help_flag := (snd (fst r) \<noteq> none_t)\<rparr>) False)))"

section \<open>Integer coercion\<close>

text \<open>
  \<^verbatim>\<open>std::stoll(str, &idx)\<close> belongs to the C++ standard library, not to this repository.
  It is modelled from the standard: \<^verbatim>\<open>strtoll\<close> in base 10 skips leading white space,
  reads an optional sign and the longest run of decimal digits, throws
  \<^verbatim>\<open>std::invalid_argument\<close> when there is no digit and \<^verbatim>\<open>std::out_of_range\<close> when the
  value does not fit \<^verbatim>\<open>long long\<close>; otherwise it returns the value and stores the number
  of characters read in \<^verbatim>\<open>idx\<close>.
\<close>

datatype stoll_result = Converted int nat | Out_of_range | Invalid_argument

definition LLONG_MIN :: int where
  "LLONG_MIN = - (2 ^ 63)"

definition LLONG_MAX :: int where
  "LLONG_MAX = 2 ^ 63 - 1"

fun digits_value :: "int \<Rightarrow> string \<Rightarrow> int" where
  "digits_value acc [] = acc"
| "digits_value acc (c # cs) = digits_value (10 * acc + (int (of_char c) - 48)) cs"

definition stoll :: "string \<Rightarrow> stoll_result" where
  "stoll str =
     (let ws = takeWhile isspace str;
          rest = dropWhile isspace str;
          neg = (rest \<noteq> [] \<and> hd rest = CHR ''-'');
          has_sign = (rest \<noteq> [] \<and> (hd rest = CHR ''-'' \<or> hd rest = CHR ''+''));
          ds = takeWhile isdigit (if has_sign then tl rest else rest);
          v = (if neg then - digits_value 0 ds else digits_value 0 ds)
      in if ds = [] then Invalid_argument
         else if v < LLONG_MIN \<or> LLONG_MAX < v then Out_of_range
         else Converted v (length ws + (if has_sign then 1 else 0) + length ds))"

text \<open>An \<^verbatim>\<open>arg\<close>: its identifier, its description and its defaults. The floating-point
  default takes no part in the integer coercion and is left out.\<close>

record arg =
  arg_id :: fire_identifier
  descr :: string
  int_value :: "int option"
  string_value :: "string option"

text \<open>\<^verbatim>\<open>arg::_get<long long>\<close>. The last assertion and the return are shared by the three
  outcomes of \<^verbatim>\<open>std::stoll\<close>, with the values the local variables hold there.\<close>

definition get_long_long_finish ::
  "matcher \<Rightarrow> arg \<Rightarrow> string \<Rightarrow> bool \<Rightarrow> nat \<Rightarrow> int \<Rightarrow> halt + (int option \<times> matcher)" where
  "get_long_long_finish m a str is_int last_idx converted =
     (case deferred_assert m (arg_id a) (is_int \<and> last_idx = length str)
             (''value '' @ str @ '' is not an integer'') of
        Inl e \<Rightarrow> Inl e
      | Inr r \<Rightarrow> Inr (Some converted, snd r))"

definition get_long_long :: "matcher \<Rightarrow> arg \<Rightarrow> halt + (int option \<times> matcher)" where
  "get_long_long m a =
     (case get_and_mark_as_queried m (arg_id a) of
        Inl e \<Rightarrow> Inl e
      | Inr q \<Rightarrow>
     (case deferred_assert (snd q) (arg_id a) (snd (fst q) \<noteq> bool_t)
             (''argument '' @ help_str (arg_id a) @ '' must have value'') of
        Inl e \<Rightarrow> Inl e
      | Inr r \<Rightarrow>
          (if snd (fst q) = string_t then
             (case stoll (fst (fst q)) of
                Out_of_range \<Rightarrow>
                  (case deferred_assert (snd r) (arg_id a) False
                          (''value '' @ fst (fst q) @ '' out of range'') of
                     Inl e \<Rightarrow> Inl e
                   | Inr r' \<Rightarrow> get_long_long_finish (snd r') a (fst (fst q)) True 0 0)
              | Invalid_argument \<Rightarrow> get_long_long_finish (snd r) a (fst (fst q)) False 0 0
              | Converted v last_idx \<Rightarrow>
                  get_long_long_finish (snd r) a (fst (fst q)) True last_idx v)
           else Inr (int_value a, snd r))))"

text \<open>The integral target type \<open>T\<close> of \<^verbatim>\<open>_get_with_precision<T>\<close>: its signedness and
  its width in bits, with \<^verbatim>\<open>std::numeric_limits<T>::lowest()\<close> and \<^verbatim>\<open>max()\<close>.\<close>

record int_type =
  is_signed :: bool
  bits :: nat

definition lowest :: "int_type \<Rightarrow> int" where
  "lowest T = (if is_signed T then - (2 ^ (bits T - 1)) else 0)"

definition max_of :: "int_type \<Rightarrow> int" where
  "max_of T = (if is_signed T then 2 ^ (bits T - 1) - 1 else 2 ^ bits T - 1)"

text \<open>In \<^verbatim>\<open>min <= value && value <= max\<close> the operands are a \<open>T\<close> and a \<^verbatim>\<open>long long\<close>.
  The usual arithmetic conversions compare them as \<^verbatim>\<open>long long\<close>, except for an unsigned
  64-bit \<open>T\<close>, where both are converted to that type, modulo \<open>2 ^ 64\<close>.\<close>

definition in_common_type :: "int_type \<Rightarrow> int \<Rightarrow> int" where
  "in_common_type T x = (if \<not> is_signed T \<and> bits T \<ge> 64 then x mod 2 ^ 64 else x)"

text \<open>The conversion \<^verbatim>\<open>(T) value\<close>: the value modulo \<open>2 ^ bits\<close>, in the range of \<open>T\<close>.\<close>

definition cast :: "int_type \<Rightarrow> int \<Rightarrow> int" where
  "cast T x =
     (if is_signed T then (x + 2 ^ (bits T - 1)) mod 2 ^ bits T - 2 ^ (bits T - 1)
      else x mod 2 ^ bits T)"

definition get_with_precision ::
  "int_type \<Rightarrow> matcher \<Rightarrow> arg \<Rightarrow> halt + (int option \<times> matcher)" where
  "get_with_precision T m a =
     (case get_long_long m a of
        Inl e \<Rightarrow> Inl e
      | Inr g \<Rightarrow>
     (case fst g of
        None \<Rightarrow> Inr (None, snd g)
      | Some v \<Rightarrow>
     (case deferred_assert (snd g) (arg_id a) (is_signed T \<or> v \<ge> 0)
             (''argument '' @ help_str (arg_id a) @ '' must be positive'') of
        Inl e \<Rightarrow> Inl e
      | Inr r1 \<Rightarrow>
     (case deferred_assert (snd r1) (arg_id a)
             (in_common_type T (lowest T) \<le> in_common_type T v
              \<and> in_common_type T v \<le> in_common_type T (max_of T))
             (''value '' @ to_string v @ '' out of range'') of
        Inl e \<Rightarrow> Inl e
      | Inr r2 \<Rightarrow> Inr (Some (cast T v), snd r2)))))"

section \<open>Definitions used to state the properties\<close>

text \<open>The primary sort key in the words of the specification: the case-folded long name
  if present, else the short name, else the empty string.\<close>

definition primary_key :: "fire_identifier \<Rightarrow> string" where
  "primary_key a =
     map tolower (case long_name a of Some l \<Rightarrow> l
                  | None \<Rightarrow> (case short_name a of Some s \<Rightarrow> s | None \<Rightarrow> []))"

text \<open>A sequence of failing validations, each recorded through \<open>deferred_assert\<close>.\<close>

fun raise_all :: "matcher \<Rightarrow> (fire_identifier \<times> string) list \<Rightarrow> halt + matcher" where
  "raise_all m [] = Inr m"
| "raise_all m (e # es) =
     (case deferred_assert m (fst e) False (snd e) of
        Inl h \<Rightarrow> Inl h
      | Inr r \<Rightarrow> raise_all (snd r) es)"

text \<open>After construction the matcher changes only through its three methods
  \<^verbatim>\<open>get_and_mark_as_queried\<close>, \<^verbatim>\<open>deferred_assert\<close> and \<^verbatim>\<open>check\<close>; a run is the
  constructor followed by a sequence of such calls, ended by the first that exits.\<close>

datatype operation =
    Query fire_identifier
  | Assert fire_identifier bool string
  | Check bool

fun step :: "matcher \<Rightarrow> operation \<Rightarrow> halt + matcher" where
  "step m (Query ident) =
     (case get_and_mark_as_queried m ident of Inl e \<Rightarrow> Inl e | Inr r \<Rightarrow> Inr (snd r))"
| "step m (Assert ident pass msg) =
     (case deferred_assert m ident pass msg of Inl e \<Rightarrow> Inl e | Inr r \<Rightarrow> Inr (snd r))"
| "step m (Check dec_main_argc) = check m dec_main_argc"

fun run_ops :: "matcher \<Rightarrow> operation list \<Rightarrow> halt + matcher" where
  "run_ops m [] = Inr m"
| "run_ops m (x # xs) = (case step m x of Inl e \<Rightarrow> Inl e | Inr m' \<Rightarrow> run_ops m' xs)"

definition fire_run ::
  "string list \<Rightarrow> int \<Rightarrow> bool \<Rightarrow> bool \<Rightarrow> operation list \<Rightarrow> halt + matcher" where
  "fire_run argv argc_main sa st ops =
     (case matcher_init argv argc_main sa st of Inl e \<Rightarrow> Inl e | Inr m \<Rightarrow> run_ops m ops)"

text \<open>The named table contains the help flag: an entry named \<open>h\<close> or \<open>help\<close>.\<close>

definition has_help_flag :: "(string \<times> string option) list \<Rightarrow> bool" where
  "has_help_flag tab = list_ex (\<lambda>e. fst e = ''h'' \<or> fst e = ''help'') tab"

text \<open>Two matcher states that differ at most in the deferred error slot.\<close>

definition same_but_slot :: "matcher \<Rightarrow> matcher \<Rightarrow> bool" where
  "same_but_slot m m' =
     (executable m' = executable m \<and> positional m' = positional m \<and> named m' = named m
      \<and> queried m' = queried m \<and> main_argc m' = main_argc m
      \<and> space_assignment m' = space_assignment m \<and> strict m' = strict m
      \<and> help_flag m' = help_flag m)"

text \<open>The test of \<^verbatim>\<open>separate_named_positional\<close> for a token that is named by its own
  hyphens, whatever precedes it.\<close>

definition named_token_candidate :: "string \<Rightarrow> bool" where
  "named_token_candidate s =
     (count_hyphens s = 2
      \<or> (count_hyphens s = 1 \<and> int (length s) - int (count_hyphens s) \<ge> 1
          \<and> \<not> isdigit (str_at s 1)))"

text \<open>A decimal integer in the words of the specification: an optional sign before one
  or more decimal digits; the result is its value.\<close>

definition decimal_integer :: "string \<Rightarrow> int option" where
  "decimal_integer str =
     (let has_sign = (str \<noteq> [] \<and> (hd str = CHR ''-'' \<or> hd str = CHR ''+''));
          ds = (if has_sign then tl str else str)
      in if ds \<noteq> [] \<and> list_all isdigit ds
         then Some (if hd str = CHR ''-'' then - digits_value 0 ds else digits_value 0 ds)
         else None)"

text \<open>The message of the narrowing step for a value outside the range of \<open>T\<close>.\<close>

definition range_message :: "int_type \<Rightarrow> arg \<Rightarrow> int \<Rightarrow> string" where
  "range_message T a v =
     (if \<not> is_signed T \<and> v < 0
      then ''argument '' @ help_str (arg_id a) @ '' must be positive''
      else ''value '' @ to_string v @ '' out of range'')"

section \<open>The identifier order\<close>

lemma identifier_less_keys:
  "identifier_less a b \<longleftrightarrow>
     (primary_key a < primary_key b \<or>
      (primary_key a = primary_key b \<and> value_or (pos a) 1000000 < value_or (pos b) 1000000))"
  by (auto simp: identifier_less_def primary_key_def value_or_def Let_def split: option.splits)

lemma identifier_less_irrefl: "\<not> identifier_less a a"
  by (simp add: identifier_less_keys)

lemma identifier_less_trans:
  "identifier_less a b \<Longrightarrow> identifier_less b c \<Longrightarrow> identifier_less a c"
  unfolding identifier_less_keys by auto

lemma identifier_less_negtrans:
  "\<not> identifier_less a b \<Longrightarrow> \<not> identifier_less b c \<Longrightarrow> \<not> identifier_less a c"
  unfolding identifier_less_keys by auto

lemma primary_key_identifier_pos [simp]: "primary_key (identifier_pos p) = []"
  by (simp add: primary_key_def identifier_pos_def)

lemma primary_key_identifier_vector [simp]: "primary_key identifier_vector = []"
  by (simp add: primary_key_def identifier_vector_def)

lemma pos_identifier_pos [simp]: "pos (identifier_pos p) = Some p"
  by (simp add: identifier_pos_def)

lemma pos_identifier_vector [simp]: "pos identifier_vector = None"
  by (simp add: identifier_vector_def)

text \<open>
  C6, as the specification states it, fails: the identifier without a positional index
  (the vector sentinel) has the same primary key as the positional identifier 2000000 and
  sorts before it, not after it.
\<close>

theorem absent_index_not_always_last:
  "primary_key identifier_vector = primary_key (identifier_pos 2000000)
   \<and> pos identifier_vector = None
   \<and> pos (identifier_pos 2000000) = Some 2000000
   \<and> identifier_less identifier_vector (identifier_pos 2000000)
   \<and> \<not> identifier_less (identifier_pos 2000000) identifier_vector"
  by (simp add: identifier_less_keys value_or_def)

text \<open>
  C6 (amended): \<open>identifier_less\<close> compares the case-folded primary keys first (long name
  if present, else short name, else the empty string); on equal primary keys it compares
  the positional indices, an absent index counting as index 1000000. An identifier without
  an index therefore sorts after exactly the identifiers whose index is below 1000000.
\<close>

theorem identifier_less_spec:
  "identifier_less a b \<longleftrightarrow>
     (primary_key a < primary_key b \<or>
      (primary_key a = primary_key b \<and>
       (case pos a of
          Some i \<Rightarrow> (case pos b of Some j \<Rightarrow> i < j | None \<Rightarrow> i < 1000000)
        | None \<Rightarrow> (case pos b of Some j \<Rightarrow> 1000000 < j | None \<Rightarrow> False))))"
  by (simp add: identifier_less_keys value_or_def split: option.splits)

theorem identifier_less_spec_witness:
  "identifier_less (identifier_pos 3) identifier_vector
   \<and> \<not> identifier_less identifier_vector (identifier_pos 3)"
  using identifier_less_spec [of "identifier_pos 3" identifier_vector]
        identifier_less_spec [of identifier_vector "identifier_pos 3"]
  by simp

section \<open>The deferred error slot\<close>

lemma first_set_fold:
  assumes "\<not> slot_empty s"
  shows "\<not> slot_empty (fold (\<lambda>e. first_set (fst e) (snd e)) errs s) \<and>
         ((slot_order (fold (\<lambda>e. first_set (fst e) (snd e)) errs s),
           slot_value (fold (\<lambda>e. first_set (fst e) (snd e)) errs s))
            \<in> insert (slot_order s, slot_value s) (set errs)) \<and>
         \<not> identifier_less (slot_order s)
             (slot_order (fold (\<lambda>e. first_set (fst e) (snd e)) errs s)) \<and>
         (\<forall>e \<in> set errs. \<not> identifier_less (fst e)
             (slot_order (fold (\<lambda>e. first_set (fst e) (snd e)) errs s)))"
  using assms
proof (induction errs arbitrary: s)
  case Nil
  then show ?case by (simp add: identifier_less_irrefl)
next
  case (Cons e errs)
  let ?s1 = "first_set (fst e) (snd e) s"
  have ne: "\<not> slot_empty ?s1" using Cons.prems by (simp add: first_set_def)
  note ih = Cons.IH [OF ne]
  have s1: "(slot_order ?s1, slot_value ?s1) \<in> {(slot_order s, slot_value s), e}"
    using Cons.prems by (auto simp: first_set_def)
  have le1: "\<not> identifier_less (slot_order s) (slot_order ?s1)"
    using Cons.prems identifier_less_irrefl identifier_less_trans
    by (auto simp: first_set_def)
  have le2: "\<not> identifier_less (fst e) (slot_order ?s1)"
    using Cons.prems identifier_less_irrefl by (auto simp: first_set_def)
  show ?case
    using ih s1 le1 le2 identifier_less_negtrans by (auto; blast)
qed

lemma raise_all_strict:
  "strict m \<Longrightarrow>
   raise_all m errs =
     Inr (m\<lparr>deferred_error := fold (\<lambda>e. first_set (fst e) (snd e)) errs (deferred_error m)\<rparr>)"
  by (induction errs arbitrary: m) (simp_all add: deferred_assert_def)

text \<open>
  C5: the slot holds one (identifier, message) pair at most (it is one record). Starting
  from the empty slot, after any sequence of failing validations in strict mode it holds
  one of the recorded pairs, and no recorded identifier is smaller than the one it holds;
  a further error whose identifier is not smaller leaves the matcher unchanged.
\<close>

theorem deferred_slot_keeps_smallest:
  assumes "strict m" and "slot_empty (deferred_error m)"
  shows "\<exists>m'. raise_all m errs = Inr m'
           \<and> (errs = [] \<longrightarrow> slot_empty (deferred_error m'))
           \<and> (errs \<noteq> [] \<longrightarrow>
                \<not> slot_empty (deferred_error m')
                \<and> (slot_order (deferred_error m'), slot_value (deferred_error m')) \<in> set errs
                \<and> (\<forall>e \<in> set errs. \<not> identifier_less (fst e) (slot_order (deferred_error m'))))
           \<and> (\<forall>ident msg.
                \<not> slot_empty (deferred_error m')
                \<and> \<not> identifier_less ident (slot_order (deferred_error m'))
                \<longrightarrow> deferred_assert m' ident False msg = Inr (False, m'))"
proof (cases errs)
  case Nil
  then show ?thesis using assms by (simp add: deferred_assert_def)
next
  case (Cons e es)
  let ?f = "\<lambda>e. first_set (fst e) (snd e)"
  let ?s1 = "first_set (fst e) (snd e) (deferred_error m)"
  let ?s = "fold ?f es ?s1"
  have s1: "?s1 = \<lparr>slot_order = fst e, slot_value = snd e, slot_empty = False\<rparr>"
    using assms(2) by (simp add: first_set_def)
  then have ne: "\<not> slot_empty ?s1" by simp
  have run: "raise_all m errs = Inr (m\<lparr>deferred_error := ?s\<rparr>)"
    using raise_all_strict [OF assms(1), of errs] Cons by simp
  from first_set_fold [OF ne, of es]
  have a: "\<not> slot_empty ?s"
    and b: "(slot_order ?s, slot_value ?s) \<in> set errs"
    and c: "\<forall>x \<in> set errs. \<not> identifier_less (fst x) (slot_order ?s)"
    unfolding Cons s1 by auto
  have d: "\<forall>ident msg. \<not> identifier_less ident (slot_order ?s) \<longrightarrow>
             deferred_assert (m\<lparr>deferred_error := ?s\<rparr>) ident False msg
               = Inr (False, m\<lparr>deferred_error := ?s\<rparr>)"
    using a assms(1) by (simp add: deferred_assert_def first_set_def)
  show ?thesis using run a b c d Cons by simp
qed

theorem deferred_slot_keeps_smallest_witness:
  "strict (matcher_new 0 False True)
   \<and> slot_empty (deferred_error (matcher_new 0 False True))
   \<and> (\<exists>m'. raise_all (matcher_new 0 False True)
              [(identifier_pos 1, ''b''), (identifier_pos 0, ''a''), (identifier_vector, ''c'')]
            = Inr m'
          \<and> \<not> slot_empty (deferred_error m')
          \<and> (\<forall>e \<in> set [(identifier_pos 1, ''b''), (identifier_pos 0, ''a''),
                         (identifier_vector, ''c'')].
                \<not> identifier_less (fst e) (slot_order (deferred_error m'))))"
proof -
  have h1: "strict (matcher_new 0 False True)" by (simp add: matcher_new_def)
  have h2: "slot_empty (deferred_error (matcher_new 0 False True))"
    by (simp add: matcher_new_def first_new_def)
  from deferred_slot_keeps_smallest [OF h1 h2,
      of "[(identifier_pos 1, ''b''), (identifier_pos 0, ''a''), (identifier_vector, ''c'')]"]
  show ?thesis using h1 h2 by auto
qed

section \<open>Facts about the matcher's methods\<close>

lemma same_but_slot_refl [simp]: "same_but_slot m m"
  by (simp add: same_but_slot_def)

lemma same_but_slot_update [simp]: "same_but_slot m (m\<lparr>deferred_error := s\<rparr>)"
  by (simp add: same_but_slot_def)

lemma same_but_slot_trans:
  "same_but_slot a b \<Longrightarrow> same_but_slot b c \<Longrightarrow> same_but_slot a c"
  by (simp add: same_but_slot_def)

lemma deferred_assert_pass [simp]: "deferred_assert m ident True msg = Inr (True, m)"
  by (simp add: deferred_assert_def instant_assert_def)

lemma deferred_assert_Inr:
  "deferred_assert m ident pass msg = Inr r \<Longrightarrow>
   fst r = pass \<and> same_but_slot m (snd r) \<and> (\<not> strict m \<longrightarrow> pass \<and> snd r = m)"
  by (cases "strict m"; cases pass) (auto simp: deferred_assert_def instant_assert_def)

lemma deferred_assert_strict:
  "strict m \<Longrightarrow> deferred_assert m ident pass msg =
     Inr (pass, if pass then m else m\<lparr>deferred_error := first_set ident msg (deferred_error m)\<rparr>)"
  by (simp add: deferred_assert_def)

lemma deferred_assert_exit:
  "deferred_assert m ident pass msg = Inl e \<Longrightarrow>
   \<not> strict m \<and> \<not> pass \<and> (\<exists>d. e = Exit failure_code d)"
  by (auto simp: deferred_assert_def instant_assert_def split: if_splits)

lemma overlaps_sym: "overlaps a b = overlaps b a"
  by (auto simp: overlaps_def)

lemma assert_no_overlap_fail:
  "it \<in> set qs \<Longrightarrow> overlaps it ident \<Longrightarrow>
   assert_no_overlap qs ident =
     Inl (Exit failure_code
            (Error_line (''Error (programmer side): double query for argument '' @ longer ident)))"
  by (induction qs) (auto simp: instant_assert_def)

lemma assert_no_overlap_ok:
  "\<forall>it \<in> set qs. \<not> overlaps it ident \<Longrightarrow> assert_no_overlap qs ident = Inr ()"
  by (induction qs) (auto simp: instant_assert_def)

lemma assert_no_overlap_cases:
  "assert_no_overlap qs ident = Inr () \<or>
   assert_no_overlap qs ident =
     Inl (Exit failure_code
            (Error_line (''Error (programmer side): double query for argument '' @ longer ident)))"
  by (induction qs) (auto simp: instant_assert_def)

lemma query_Inr:
  "get_and_mark_as_queried m ident = Inr r \<Longrightarrow>
   snd r = (if strict m then m\<lparr>queried := queried m @ [ident]\<rparr> else m)"
  by (auto simp: get_and_mark_as_queried_def Let_def vector_at_def
           split: sum.splits option.splits if_splits)

lemma query_exit:
  "get_and_mark_as_queried m ident = Inl e \<Longrightarrow>
   \<exists>msg. e = Exit failure_code (Error_line (''Error (programmer side): '' @ msg))"
  using assert_no_overlap_cases [of "queried m" ident]
  by (auto simp: get_and_mark_as_queried_def Let_def vector_at_def instant_assert_def
           split: sum.splits option.splits if_splits)

lemma find_named_no_names:
  "short_name ident = None \<Longrightarrow> long_name ident = None \<Longrightarrow> find_named tab ident = None"
  by (induction tab) (simp_all add: contains_name_def)

lemma find_named_kind: "find_named tab ident = Some r \<Longrightarrow> snd r \<noteq> none_t"
  by (induction tab) (auto split: if_splits option.splits)

lemma positional_identifier_fields:
  "ident = identifier_pos i \<or> identifier_pos_help i h = Inr ident \<Longrightarrow>
   short_name ident = None \<and> long_name ident = None \<and> pos ident = Some i"
  by (auto simp: identifier_pos_def identifier_pos_help_def split: sum.splits)

lemma check_named_Inr: "check_named m = Inr m' \<Longrightarrow> same_but_slot m m'"
  by (auto simp: check_named_def Let_def split: sum.splits dest!: deferred_assert_Inr)

lemma check_positional_Inr: "check_positional m = Inr m' \<Longrightarrow> same_but_slot m m'"
  by (auto simp: check_positional_def Let_def split: sum.splits dest!: deferred_assert_Inr)

lemma check_named_exit:
  "check_named m = Inl e \<Longrightarrow> \<exists>d. e = Exit failure_code d"
  by (auto simp: check_named_def Let_def split: sum.splits dest!: deferred_assert_exit)

lemma check_positional_exit:
  "check_positional m = Inl e \<Longrightarrow> \<exists>d. e = Exit failure_code d"
  by (auto simp: check_positional_def Let_def split: sum.splits dest!: deferred_assert_exit)

lemma check_Inr:
  "check m dec = Inr m' \<Longrightarrow>
   same_but_slot (m\<lparr>main_argc := main_argc m - (if dec then 1 else 0)\<rparr>) m'"
proof -
  assume a: "check m dec = Inr m'"
  let ?m1 = "m\<lparr>main_argc := main_argc m - (if dec then 1 else 0)\<rparr>"
  show ?thesis
  proof (cases "\<not> strict ?m1 \<or> main_argc ?m1 > 0")
    case True
    then show ?thesis using a by (auto simp: check_def Let_def)
  next
    case False
    then obtain m2 where n: "check_named ?m1 = Inr m2" and p: "check_positional m2 = Inr m'"
      using a by (auto simp: check_def Let_def split: sum.splits if_splits)
    from check_named_Inr [OF n] check_positional_Inr [OF p] show ?thesis
      by (rule same_but_slot_trans)
  qed
qed

lemma check_exit:
  "check m dec = Inl e \<Longrightarrow>
   strict m \<and> main_argc m - (if dec then 1 else 0) \<le> 0
   \<and> (if help_flag m then e = Exit 0 Help_screen else \<exists>d. e = Exit failure_code d)"
  by (auto simp: check_def Let_def split: sum.splits if_splits
           dest!: check_named_exit check_positional_exit)

lemma step_Inr:
  assumes st: "step m x = Inr m'"
  shows "named m' = named m \<and> positional m' = positional m \<and> strict m' = strict m
   \<and> space_assignment m' = space_assignment m \<and> help_flag m' = help_flag m
   \<and> set (queried m) \<subseteq> set (queried m')
   \<and> (\<forall>ident. x = Query ident \<and> strict m \<longrightarrow> ident \<in> set (queried m'))"
proof (cases x)
  case (Query ident)
  then show ?thesis using st query_Inr [of m ident]
    by (auto split: sum.splits if_splits)
next
  case (Assert ident pass msg)
  then show ?thesis using st deferred_assert_Inr [of m ident pass msg]
    by (auto simp: same_but_slot_def split: sum.splits)
next
  case (Check dec)
  then show ?thesis using st check_Inr [of m dec m']
    by (auto simp: same_but_slot_def)
qed

lemma run_ops_Inr:
  "run_ops m xs = Inr m' \<Longrightarrow>
   named m' = named m \<and> positional m' = positional m \<and> strict m' = strict m
   \<and> space_assignment m' = space_assignment m \<and> help_flag m' = help_flag m
   \<and> set (queried m) \<subseteq> set (queried m')"
proof (induction xs arbitrary: m)
  case Nil
  then show ?case by simp
next
  case (Cons x xs)
  then obtain m1 where s: "step m x = Inr m1" and r: "run_ops m1 xs = Inr m'"
    by (auto split: sum.splits)
  from step_Inr [OF s] Cons.IH [OF r] show ?case by auto
qed

lemma step_Inl_zero:
  "step m x = Inl (Exit 0 d) \<Longrightarrow> d = Help_screen \<and> help_flag m \<and> strict m"
  by (cases x)
     (auto simp: failure_code_def split: sum.splits if_splits
           dest!: query_exit deferred_assert_exit check_exit)

lemma run_ops_Inl_zero:
  "run_ops m xs = Inl (Exit 0 d) \<Longrightarrow> d = Help_screen \<and> help_flag m \<and> strict m"
proof (induction xs arbitrary: m)
  case Nil
  then show ?case by simp
next
  case (Cons x xs)
  show ?case
  proof (cases "step m x")
    case (Inl e)
    then show ?thesis using Cons.prems step_Inl_zero [of m x d] by simp
  next
    case (Inr m1)
    then have "run_ops m1 xs = Inl (Exit 0 d)" using Cons.prems by simp
    from Cons.IH [OF this] step_Inr [OF Inr] show ?thesis by simp
  qed
qed

lemma run_ops_append:
  "run_ops m (xs @ ys) = (case run_ops m xs of Inl e \<Rightarrow> Inl e | Inr m' \<Rightarrow> run_ops m' ys)"
  by (induction xs arbitrary: m) (auto split: sum.splits)

section \<open>Facts about parsing\<close>

lemma separate_loop_Inr:
  "separate_loop m nm ps tn raw = Inr r \<Longrightarrow> same_but_slot m (snd r)"
proof (induction raw arbitrary: m nm ps tn)
  case Nil
  then show ?case by auto
next
  case (Cons s raw)
  from Cons.prems obtain r1 where
    d: "deferred_assert m identifier_vector (count_hyphens s \<le> 2) (''too many hyphens: '' @ s)
          = Inr r1"
    by (auto simp: Let_def split: sum.splits)
  from Cons.prems d obtain nm' ps' tn' where "separate_loop (snd r1) nm' ps' tn' raw = Inr r"
    by (auto simp: Let_def split: if_splits)
  from Cons.IH [OF this] deferred_assert_Inr [OF d] show ?case
    by (auto intro: same_but_slot_trans)
qed

lemma separate_loop_Inl:
  "separate_loop m nm ps tn raw = Inl e \<Longrightarrow> \<exists>d. e = Exit failure_code d"
proof (induction raw arbitrary: m nm ps tn)
  case Nil
  then show ?case by auto
next
  case (Cons s raw)
  show ?case
  proof (cases "deferred_assert m identifier_vector (count_hyphens s \<le> 2)
                  (''too many hyphens: '' @ s)")
    case (Inl e')
    then show ?thesis using Cons.prems deferred_assert_exit [OF Inl]
      by (auto simp: Let_def)
  next
    case (Inr r1)
    with Cons.prems obtain nm' ps' tn' where "separate_loop (snd r1) nm' ps' tn' raw = Inl e"
      by (auto simp: Let_def split: if_splits)
    from Cons.IH [OF this] show ?thesis .
  qed
qed

lemma split_loop_Inr:
  "split_loop m sp nm = Inr r \<Longrightarrow> same_but_slot m (snd r)"
proof (induction nm arbitrary: m sp)
  case Nil
  then show ?case by auto
next
  case (Cons s nm)
  show ?case
  proof (cases "find_char s CHR ''=''")
    case None
    then show ?thesis using Cons by (auto simp: Let_def)
  next
    case (Some eq)
    with Cons.prems obtain r1 msg sp' where
      d: "deferred_assert m identifier_vector
            (int eq - int (count_hyphens s) = 1 \<or> count_hyphens s \<ge> 2) msg = Inr r1"
      and l: "split_loop (snd r1) sp' nm = Inr r"
      by (auto simp: Let_def split: sum.splits if_splits)
    from Cons.IH [OF l] deferred_assert_Inr [OF d] show ?thesis
      by (auto intro: same_but_slot_trans)
  qed
qed

lemma split_loop_Inl:
  "split_loop m sp nm = Inl e \<Longrightarrow> \<exists>d. e = Exit failure_code d"
proof (induction nm arbitrary: m sp)
  case Nil
  then show ?case by auto
next
  case (Cons s nm)
  show ?case
  proof (cases "find_char s CHR ''=''")
    case None
    then show ?thesis using Cons by (auto simp: Let_def)
  next
    case (Some eq)
    then show ?thesis using Cons
      by (auto simp: Let_def split: sum.splits if_splits dest!: deferred_assert_exit)
  qed
qed

lemma set_back_Inl: "set_back args v = Inl e \<Longrightarrow> e = Undefined_behaviour"
  by (auto simp: set_back_def split: if_splits)

lemma assign_loop_Inr:
  "assign_loop m args sp = Inr r \<Longrightarrow> same_but_slot m (snd r)"
proof (induction sp arbitrary: m args)
  case Nil
  then show ?case by auto
next
  case (Cons p sp)
  from Cons.prems
  have "(\<exists>args'. assign_loop m args' sp = Inr r)
        \<or> (\<exists>r1 pass msg args'. deferred_assert m identifier_vector pass msg = Inr r1
             \<and> assign_loop (snd r1) args' sp = Inr r)"
    by (simp add: Let_def split: sum.splits if_splits) (blast | force)+
  then show ?case
    using Cons.IH by (auto dest!: deferred_assert_Inr intro: same_but_slot_trans)
qed

lemma assign_loop_Inl:
  "assign_loop m args sp = Inl e \<Longrightarrow> e = Undefined_behaviour \<or> (\<exists>d. e = Exit failure_code d)"
proof (induction sp arbitrary: m args)
  case Nil
  then show ?case by auto
next
  case (Cons p sp)
  from Cons.prems
  have "(\<exists>args' v. set_back args' v = Inl e)
        \<or> (\<exists>m' args'. assign_loop m' args' sp = Inl e)
        \<or> (\<exists>msg pass. deferred_assert m identifier_vector pass msg = Inl e)"
    by (simp add: Let_def split: sum.splits if_splits) blast+
  then show ?case
    using Cons.IH by (auto dest!: deferred_assert_exit set_back_Inl)
qed

lemma occurrence_inner_Inr:
  "occurrence_inner m n earlier = Inr m' \<Longrightarrow> same_but_slot m m'"
  by (induction earlier arbitrary: m)
     (auto split: sum.splits dest!: deferred_assert_Inr intro: same_but_slot_trans)

lemma occurrence_inner_Inl:
  "occurrence_inner m n earlier = Inl e \<Longrightarrow> \<exists>d. e = Exit failure_code d"
  by (induction earlier arbitrary: m)
     (auto split: sum.splits dest!: deferred_assert_exit)

lemma occurrence_outer_Inr:
  "occurrence_outer m earlier tab = Inr m' \<Longrightarrow> same_but_slot m m'"
  by (induction tab arbitrary: m earlier)
     (auto split: sum.splits dest!: occurrence_inner_Inr intro: same_but_slot_trans)

lemma occurrence_outer_Inl:
  "occurrence_outer m earlier tab = Inl e \<Longrightarrow> \<exists>d. e = Exit failure_code d"
  by (induction tab arbitrary: m earlier)
     (auto split: sum.splits dest!: occurrence_inner_Inl)

lemma parse_Inl:
  "parse m argv = Inl e \<Longrightarrow> e = Undefined_behaviour \<or> (\<exists>d. e = Exit failure_code d)"
  by (auto simp: parse_def separate_named_positional_def split_equations_def
        assign_named_values_def
        split: list.splits sum.splits if_splits
        dest!: separate_loop_Inl split_loop_Inl assign_loop_Inl occurrence_outer_Inl
               deferred_assert_exit)

lemma parse_final_Inr:
  "(if space_assignment m4 then
      (case deferred_assert m4 identifier_vector (positional m4 = []) msg of
         Inl e \<Rightarrow> Inl e
       | Inr r5 \<Rightarrow> Inr (snd r5))
    else Inr m4) = Inr m' \<Longrightarrow> same_but_slot m4 m'"
  by (auto split: if_splits sum.splits dest!: deferred_assert_Inr)

lemma parse_Inr_steps:
  assumes "parse m argv = Inr m'"
  obtains exe raw r1 r2 r3 m4 where "argv = exe # raw"
    and "separate_loop (m\<lparr>executable := exe\<rparr>) [] [] False raw = Inr r1"
    and "split_loop ((snd r1)\<lparr>positional := snd (fst r1)\<rparr>) [] (fst (fst r1)) = Inr r2"
    and "assign_loop (snd r2) [] (fst r2) = Inr r3"
    and "occurrence_outer ((snd r3)\<lparr>named := fst r3\<rparr>) [] (fst r3) = Inr m4"
    and "(if space_assignment m4 then
            (case deferred_assert m4 identifier_vector (positional m4 = [])
                    ''positional arguments given, but not accepted'' of
               Inl e \<Rightarrow> Inl e
             | Inr r5 \<Rightarrow> Inr (snd r5))
          else Inr m4) = Inr m'"
proof (cases argv)
  case Nil
  then show ?thesis using assms by (simp add: parse_def)
next
  case (Cons exe raw)
  show ?thesis
  proof (cases "separate_loop (m\<lparr>executable := exe\<rparr>) [] [] False raw")
    case (Inl e)
    then show ?thesis using assms Cons by (simp add: parse_def separate_named_positional_def)
  next
    case r1: (Inr r1)
    show ?thesis
    proof (cases "split_loop ((snd r1)\<lparr>positional := snd (fst r1)\<rparr>) [] (fst (fst r1))")
      case (Inl e)
      then show ?thesis using assms Cons r1
        by (simp add: parse_def separate_named_positional_def split_equations_def)
    next
      case r2: (Inr r2)
      show ?thesis
      proof (cases "assign_loop (snd r2) [] (fst r2)")
        case (Inl e)
        then show ?thesis using assms Cons r1 r2
          by (simp add: parse_def separate_named_positional_def split_equations_def
                assign_named_values_def)
      next
        case r3: (Inr r3)
        show ?thesis
        proof (cases "occurrence_outer ((snd r3)\<lparr>named := fst r3\<rparr>) [] (fst r3)")
          case (Inl e)
          then show ?thesis using assms Cons r1 r2 r3
            by (simp add: parse_def separate_named_positional_def split_equations_def
                  assign_named_values_def)
        next
          case m4: (Inr m4)
          have "(if space_assignment m4 then
                  (case deferred_assert m4 identifier_vector (positional m4 = [])
                          ''positional arguments given, but not accepted'' of
                     Inl e \<Rightarrow> Inl e
                   | Inr r5 \<Rightarrow> Inr (snd r5))
                else Inr m4) = Inr m'"
            using assms Cons r1 r2 r3 m4
            by (simp add: parse_def separate_named_positional_def split_equations_def
                  assign_named_values_def)
          then show ?thesis using that Cons r1 r2 r3 m4 by blast
        qed
      qed
    qed
  qed
qed

lemma parse_Inr_fresh:
  assumes "parse m argv = Inr m'"
  shows "queried m' = queried m \<and> strict m' = strict m
     \<and> space_assignment m' = space_assignment m \<and> main_argc m' = main_argc m
     \<and> help_flag m' = help_flag m"
proof -
  from assms obtain exe raw r1 r2 r3 m4 where
    a: "separate_loop (m\<lparr>executable := exe\<rparr>) [] [] False raw = Inr r1"
    and b: "split_loop ((snd r1)\<lparr>positional := snd (fst r1)\<rparr>) [] (fst (fst r1)) = Inr r2"
    and c: "assign_loop (snd r2) [] (fst r2) = Inr r3"
    and d: "occurrence_outer ((snd r3)\<lparr>named := fst r3\<rparr>) [] (fst r3) = Inr m4"
    and e: "(if space_assignment m4 then
            (case deferred_assert m4 identifier_vector (positional m4 = [])
                    ''positional arguments given, but not accepted'' of
               Inl e \<Rightarrow> Inl e
             | Inr r5 \<Rightarrow> Inr (snd r5))
          else Inr m4) = Inr m'"
    by (rule parse_Inr_steps)
  from separate_loop_Inr [OF a] split_loop_Inr [OF b] assign_loop_Inr [OF c]
    occurrence_outer_Inr [OF d] parse_final_Inr [OF e]
  show ?thesis by (simp add: same_but_slot_def)
qed

lemma find_named_help:
  "find_named tab \<lparr>short_name = Some ''h'', long_name = Some ''help'', pos = None,
                    vector = False, help_str = ''-h|--help'', longer = ''--help''\<rparr> = None
   \<longleftrightarrow> \<not> has_help_flag tab"
  by (induction tab) (auto simp: has_help_flag_def contains_name_def split: option.splits)

lemma identifier_names_help:
  "identifier_names ''h'' ''help'' =
     Inr \<lparr>short_name = Some ''h'', long_name = Some ''help'', pos = None,
          vector = False, help_str = ''-h|--help'', longer = ''--help''\<rparr>"
  by (simp add: identifier_names_def check_name_def instant_assert_def isdigit_def Let_def)

lemma matcher_init_eq:
  assumes "parse (matcher_new n sa st) argv = Inr mp"
  shows "matcher_init argv n sa st =
           check ((if st then mp\<lparr>queried := [\<lparr>short_name = Some ''h'', long_name = Some ''help'',
                        pos = None, vector = False, help_str = ''-h|--help'',
                        longer = ''--help''\<rparr>]\<rparr> else mp)
                     \<lparr>help_flag := has_help_flag (named mp)\<rparr>) False"
proof -
  let ?hid = "\<lparr>short_name = Some ''h'', long_name = Some ''help'', pos = None,
               vector = False, help_str = ''-h|--help'', longer = ''--help''\<rparr>"
  from parse_Inr_fresh [OF assms]
  have q: "queried mp = []" and s: "strict mp = st"
    by (simp_all add: matcher_new_def)
  have "\<exists>r. get_and_mark_as_queried mp ?hid
          = Inr (r, if st then mp\<lparr>queried := [?hid]\<rparr> else mp)
        \<and> (snd r \<noteq> none_t) = has_help_flag (named mp)"
    using q s find_named_help [of "named mp"]
    by (cases "find_named (named mp) ?hid")
       (auto simp: get_and_mark_as_queried_def instant_assert_def split: option.splits
             dest: find_named_kind)
  then obtain r where
    g: "get_and_mark_as_queried mp ?hid = Inr (r, if st then mp\<lparr>queried := [?hid]\<rparr> else mp)"
    and h: "(snd r \<noteq> none_t) = has_help_flag (named mp)" by blast
  show ?thesis
    using q by (simp add: matcher_init_def assms identifier_names_help g h)
qed

section \<open>Queries\<close>

text \<open>
  C10: with space assignment enabled, querying an identifier that carries a positional
  index ends the run at once with the programmer-side error, whatever the tables, the
  ledger and the strict flag hold.
\<close>

theorem positional_query_with_space_assignment:
  "space_assignment m \<Longrightarrow> pos ident = Some i \<Longrightarrow>
   get_and_mark_as_queried m ident =
     Inl (Exit failure_code (Error_line (''Error (programmer side): positional argument used with space assignement enabled: (disable space assignement by calling FIRE_NO_SPACE_ASSIGNMENT(...) instead of FIRE(...))'')))"
  by (simp add: get_and_mark_as_queried_def instant_assert_def)

theorem positional_query_with_space_assignment_witness:
  "space_assignment (matcher_new 1 True True) \<and> pos (identifier_pos 0) = Some 0 \<and>
   get_and_mark_as_queried (matcher_new 1 True True) (identifier_pos 0) =
     Inl (Exit failure_code (Error_line (''Error (programmer side): positional argument used with space assignement enabled: (disable space assignement by calling FIRE_NO_SPACE_ASSIGNMENT(...) instead of FIRE(...))'')))"
proof -
  have h1: "space_assignment (matcher_new 1 True True)" by (simp add: matcher_new_def)
  have h2: "pos (identifier_pos 0) = Some 0" by (simp add: identifier_pos_def)
  from positional_query_with_space_assignment [OF h1 h2] h1 h2 show ?thesis by simp
qed

text \<open>
  C3, as the specification states it, fails outside strict mode: the ledger of queried
  identifiers is kept only in strict mode, so without it the same identifier is queried
  twice and both queries return.
\<close>

theorem double_query_unnoticed_without_strict_mode:
  "\<not> strict (matcher_new 2 False False)
   \<and> identifier_name ''name''
       = Inr \<lparr>short_name = None, long_name = Some ''name'', pos = None, vector = False,
              help_str = ''--name'', longer = ''--name''\<rparr>
   \<and> overlaps \<lparr>short_name = None, long_name = Some ''name'', pos = None, vector = False,
                help_str = ''--name'', longer = ''--name''\<rparr>
               \<lparr>short_name = None, long_name = Some ''name'', pos = None, vector = False,
                help_str = ''--name'', longer = ''--name''\<rparr>
   \<and> run_ops (matcher_new 2 False False)
        [Query \<lparr>short_name = None, long_name = Some ''name'', pos = None, vector = False,
                help_str = ''--name'', longer = ''--name''\<rparr>,
         Query \<lparr>short_name = None, long_name = Some ''name'', pos = None, vector = False,
                help_str = ''--name'', longer = ''--name''\<rparr>]
       = Inr (matcher_new 2 False False)"
  by (simp add: matcher_new_def get_and_mark_as_queried_def overlaps_def identifier_name_def
        check_name_def instant_assert_def Let_def)

text \<open>
  C3 (amended): in a strict-mode run, once an identifier has been queried, any later
  query of an identifier that overlaps it (shares a short name, a long name or a
  positional index) ends the run at once with a programmer-side error.
\<close>

theorem double_query_fatal_in_strict_mode:
  assumes "strict m"
    and "run_ops m (ops1 @ Query a # ops2) = Inr m2"
    and "overlaps a b \<or> overlaps b a"
  shows "\<exists>msg. get_and_mark_as_queried m2 b =
           Inl (Exit failure_code (Error_line (''Error (programmer side): '' @ msg)))"
proof -
  from assms(2) obtain m0 m1 where
    r0: "run_ops m ops1 = Inr m0" and s: "step m0 (Query a) = Inr m1"
    and r1: "run_ops m1 ops2 = Inr m2"
    by (auto simp: run_ops_append split: sum.splits)
  have "strict m0" using run_ops_Inr [OF r0] assms(1) by simp
  then have "a \<in> set (queried m1)" using step_Inr [OF s] by simp
  then have mem: "a \<in> set (queried m2)" using run_ops_Inr [OF r1] by auto
  have ov: "overlaps a b" using assms(3) overlaps_sym by blast
  show ?thesis
  proof (cases "space_assignment m2 \<and> pos b \<noteq> None")
    case True
    then show ?thesis
      by (auto simp: get_and_mark_as_queried_def instant_assert_def)
  next
    case False
    then show ?thesis
      using assert_no_overlap_fail [OF mem ov]
      by (auto simp: get_and_mark_as_queried_def instant_assert_def)
  qed
qed

theorem double_query_fatal_in_strict_mode_witness:
  "strict (matcher_new 2 False True)
   \<and> run_ops (matcher_new 2 False True)
        ([] @ Query \<lparr>short_name = None, long_name = Some ''name'', pos = None, vector = False,
                      help_str = ''--name'', longer = ''--name''\<rparr> # [])
       = Inr ((matcher_new 2 False True)
                \<lparr>queried := [\<lparr>short_name = None, long_name = Some ''name'', pos = None,
                               vector = False, help_str = ''--name'', longer = ''--name''\<rparr>]\<rparr>)
   \<and> (\<exists>msg. get_and_mark_as_queried
        ((matcher_new 2 False True)
                \<lparr>queried := [\<lparr>short_name = None, long_name = Some ''name'', pos = None,
                               vector = False, help_str = ''--name'', longer = ''--name''\<rparr>]\<rparr>)
        \<lparr>short_name = Some ''n'', long_name = Some ''name'', pos = None, vector = False,
          help_str = ''-n|--name'', longer = ''--name''\<rparr>
       = Inl (Exit failure_code (Error_line (''Error (programmer side): '' @ msg))))"
proof -
  let ?m = "matcher_new 2 False True"
  let ?a = "\<lparr>short_name = None, long_name = Some ''name'', pos = None, vector = False,
              help_str = ''--name'', longer = ''--name''\<rparr>"
  let ?b = "\<lparr>short_name = Some ''n'', long_name = Some ''name'', pos = None, vector = False,
              help_str = ''-n|--name'', longer = ''--name''\<rparr>"
  have h1: "strict ?m" by (simp add: matcher_new_def)
  have h2: "run_ops ?m ([] @ Query ?a # []) = Inr (?m\<lparr>queried := [?a]\<rparr>)"
    by (simp add: matcher_new_def get_and_mark_as_queried_def)
  have h3: "overlaps ?a ?b \<or> overlaps ?b ?a" by (simp add: overlaps_def)
  from double_query_fatal_in_strict_mode [OF h1 h2 h3] h1 h2 show ?thesis by simp
qed

text \<open>
  C4, as the specification states it, fails when space assignment is enabled: the query
  of a positional identifier then ends the run with the programmer-side error instead of
  returning \<open>none_t\<close>.
\<close>

theorem positional_query_fault_with_space_assignment:
  "length (positional (matcher_new 1 True True)) \<le> 5
   \<and> get_and_mark_as_queried (matcher_new 1 True True) (identifier_pos 5) =
       Inl (Exit 1 (Error_line (''Error (programmer side): positional argument used with space assignement enabled: (disable space assignement by calling FIRE_NO_SPACE_ASSIGNMENT(...) instead of FIRE(...))'')))"
  by (simp add: matcher_new_def get_and_mark_as_queried_def instant_assert_def identifier_pos_def
        failure_code_def)

text \<open>
  C4 (amended): for an identifier built with positional index \<open>i\<close> and a positional
  sequence of at most \<open>i\<close> elements, the query returns the empty string with kind
  \<open>none_t\<close> when space assignment is disabled and no identifier of the ledger overlaps
  it; otherwise it ends with one of the two programmer-side errors. It never reads the
  positional sequence out of bounds.
\<close>

theorem positional_query_out_of_range:
  assumes "ident = identifier_pos i \<or> identifier_pos_help i h = Inr ident"
    and "int (length (positional m)) \<le> i" and "i < 2 ^ 31"
  shows "(space_assignment m \<longrightarrow>
            get_and_mark_as_queried m ident =
              Inl (Exit failure_code (Error_line (''Error (programmer side): positional argument used with space assignement enabled: (disable space assignement by calling FIRE_NO_SPACE_ASSIGNMENT(...) instead of FIRE(...))''))))
       \<and> (\<not> space_assignment m \<and> (\<exists>it \<in> set (queried m). overlaps it ident) \<longrightarrow>
            get_and_mark_as_queried m ident =
              Inl (Exit failure_code (Error_line
                     (''Error (programmer side): double query for argument '' @ longer ident))))
       \<and> (\<not> space_assignment m \<and> (\<forall>it \<in> set (queried m). \<not> overlaps it ident) \<longrightarrow>
            get_and_mark_as_queried m ident =
              Inr (([], none_t),
                   if strict m then m\<lparr>queried := queried m @ [ident]\<rparr> else m))
       \<and> get_and_mark_as_queried m ident \<noteq> Inl Undefined_behaviour"
proof -
  from positional_identifier_fields [OF assms(1)]
  have sn: "short_name ident = None" and ln: "long_name ident = None"
    and p: "pos ident = Some i" by simp_all
  have i0: "0 \<le> i" using assms(2) by linarith
  have "i mod 2 ^ 64 = i" using i0 assms(3) by simp
  then have sz: "length (positional m) \<le> to_size_t i"
    using assms(2) by (simp add: to_size_t_def)
  have a: "space_assignment m \<longrightarrow>
            get_and_mark_as_queried m ident =
              Inl (Exit failure_code (Error_line (''Error (programmer side): positional argument used with space assignement enabled: (disable space assignement by calling FIRE_NO_SPACE_ASSIGNMENT(...) instead of FIRE(...))'')))"
    using p by (simp add: get_and_mark_as_queried_def instant_assert_def)
  have b: "\<not> space_assignment m \<and> (\<exists>it \<in> set (queried m). overlaps it ident) \<longrightarrow>
            get_and_mark_as_queried m ident =
              Inl (Exit failure_code (Error_line
                     (''Error (programmer side): double query for argument '' @ longer ident)))"
    using assert_no_overlap_fail [of _ "queried m" ident]
    by (auto simp: get_and_mark_as_queried_def)
  have c: "\<not> space_assignment m \<and> (\<forall>it \<in> set (queried m). \<not> overlaps it ident) \<longrightarrow>
            get_and_mark_as_queried m ident =
              Inr (([], none_t),
                   if strict m then m\<lparr>queried := queried m @ [ident]\<rparr> else m)"
    using assert_no_overlap_ok [of "queried m" ident] sz p
      find_named_no_names [OF sn ln]
    by (auto simp: get_and_mark_as_queried_def Let_def)
  have d: "get_and_mark_as_queried m ident \<noteq> Inl Undefined_behaviour"
    using query_exit [of m ident Undefined_behaviour] by auto
  show ?thesis using a b c d by blast
qed

theorem positional_query_out_of_range_witness:
  "int (length (positional (matcher_new 1 False True))) \<le> 5 \<and> (5::int) < 2 ^ 31
   \<and> get_and_mark_as_queried (matcher_new 1 False True) (identifier_pos 5) =
       Inr (([], none_t), (matcher_new 1 False True)\<lparr>queried := [identifier_pos 5]\<rparr>)"
proof -
  let ?m = "matcher_new 1 False True"
  have h1: "identifier_pos 5 = identifier_pos 5 \<or> identifier_pos_help 5 [] = Inr (identifier_pos 5)"
    by simp
  have h2: "int (length (positional ?m)) \<le> 5" by (simp add: matcher_new_def)
  have h3: "(5::int) < 2 ^ 31" by simp
  from positional_query_out_of_range [OF h1 h2 h3] h2 h3 show ?thesis
    by (simp add: matcher_new_def)
qed

section \<open>The help path\<close>

lemma parse_help_example:
  "parse (matcher_new 0 True True) [''prog'', ''--help'']
     = Inr ((matcher_new 0 True True)\<lparr>executable := ''prog'', named := [(''help'', None)]\<rparr>)"
  by (simp add: parse_def separate_named_positional_def split_equations_def
        assign_named_values_def matcher_new_def Let_def)

text \<open>
  C9, as the specification states it, fails outside strict mode: with the help flag in
  the named table and the countdown at zero, \<open>check\<close> returns at its guard, in the
  constructor and afterwards, without printing the help and without ending the run.
\<close>

theorem help_flag_ignored_without_strict_mode:
  "matcher_init [''prog'', ''--help''] 0 True False
     = Inr ((matcher_new 0 True False)
              \<lparr>executable := ''prog'', named := [(''help'', None)], help_flag := True\<rparr>)
   \<and> has_help_flag (named ((matcher_new 0 True False)
              \<lparr>executable := ''prog'', named := [(''help'', None)], help_flag := True\<rparr>))
   \<and> main_argc ((matcher_new 0 True False)
              \<lparr>executable := ''prog'', named := [(''help'', None)], help_flag := True\<rparr>) \<le> 0
   \<and> check ((matcher_new 0 True False)
              \<lparr>executable := ''prog'', named := [(''help'', None)], help_flag := True\<rparr>) False
     = Inr ((matcher_new 0 True False)
              \<lparr>executable := ''prog'', named := [(''help'', None)], help_flag := True\<rparr>)
   \<and> check ((matcher_new 0 True False)
              \<lparr>executable := ''prog'', named := [(''help'', None)], help_flag := True\<rparr>) True
     = Inr ((matcher_new 0 True False)
              \<lparr>executable := ''prog'', named := [(''help'', None)], help_flag := True,
               main_argc := - 1\<rparr>)"
  by (simp add: matcher_init_def parse_def separate_named_positional_def split_equations_def
        assign_named_values_def matcher_new_def Let_def identifier_names_help
        get_and_mark_as_queried_def instant_assert_def contains_name_def check_def
        has_help_flag_def)

text \<open>
  C9 (amended): in a strict-mode run, when the named table built by \<open>parse\<close> contains
  the help flag, the flush (the call of \<open>check\<close> that finds the countdown at zero or
  below, in the constructor or after any sequence of later calls) exits with status 0 and
  the help screen, whatever the tables, the ledger and the deferred error slot hold:
  validation and the error report are not reached. Conversely a run that exits with
  status 0 has printed the help screen, in strict mode, with the help flag in its named
  table.
\<close>

theorem help_flag_flush:
  "(\<forall>mp. parse (matcher_new n sa st) argv = Inr mp \<and> has_help_flag (named mp) \<longrightarrow>
        (st \<and> n \<le> 0 \<longrightarrow> matcher_init argv n sa st = Inl (Exit 0 Help_screen))
      \<and> (\<forall>m0 ops m dec.
            matcher_init argv n sa st = Inr m0 \<and> run_ops m0 ops = Inr m
            \<and> strict m \<and> main_argc m - (if dec then 1 else 0) \<le> 0
            \<longrightarrow> named m = named mp \<and> check m dec = Inl (Exit 0 Help_screen)))
   \<and> (\<forall>ops d. fire_run argv n sa st ops = Inl (Exit 0 d)
         \<longrightarrow> d = Help_screen \<and> st
             \<and> (\<exists>mp. parse (matcher_new n sa st) argv = Inr mp \<and> has_help_flag (named mp)))"
proof -
  have a: "\<And>mp. parse (matcher_new n sa st) argv = Inr mp \<Longrightarrow> has_help_flag (named mp) \<Longrightarrow>
             st \<Longrightarrow> n \<le> 0 \<Longrightarrow> matcher_init argv n sa st = Inl (Exit 0 Help_screen)"
  proof -
    fix mp
    assume p: "parse (matcher_new n sa st) argv = Inr mp" and "has_help_flag (named mp)"
      and "st" and "n \<le> 0"
    then show "matcher_init argv n sa st = Inl (Exit 0 Help_screen)"
      using parse_Inr_fresh [OF p] unfolding matcher_init_eq [OF p]
      by (simp add: check_def matcher_new_def)
  qed
  have init_Inr: "\<And>mp m0. parse (matcher_new n sa st) argv = Inr mp \<Longrightarrow>
          matcher_init argv n sa st = Inr m0 \<Longrightarrow>
          named m0 = named mp \<and> help_flag m0 = has_help_flag (named mp) \<and> strict m0 = st"
  proof -
    fix mp m0
    assume p: "parse (matcher_new n sa st) argv = Inr mp"
      and i: "matcher_init argv n sa st = Inr m0"
    from i [unfolded matcher_init_eq [OF p]] parse_Inr_fresh [OF p]
    show "named m0 = named mp \<and> help_flag m0 = has_help_flag (named mp) \<and> strict m0 = st"
      by (auto dest!: check_Inr simp: same_but_slot_def matcher_new_def split: if_splits)
  qed
  have b: "\<And>mp m0 ops m dec. parse (matcher_new n sa st) argv = Inr mp \<Longrightarrow>
             has_help_flag (named mp) \<Longrightarrow> matcher_init argv n sa st = Inr m0 \<Longrightarrow>
             run_ops m0 ops = Inr m \<Longrightarrow> strict m \<Longrightarrow> main_argc m - (if dec then 1 else 0) \<le> 0
             \<Longrightarrow> named m = named mp \<and> check m dec = Inl (Exit 0 Help_screen)"
  proof -
    fix mp m0 ops m dec
    assume p: "parse (matcher_new n sa st) argv = Inr mp"
      and hf: "has_help_flag (named mp)" and i: "matcher_init argv n sa st = Inr m0"
      and r: "run_ops m0 ops = Inr m" and st': "strict m"
      and c: "main_argc m - (if dec then 1 else 0) \<le> 0"
    from init_Inr [OF p i] run_ops_Inr [OF r] hf
    have "named m = named mp" and "help_flag m" by simp_all
    then show "named m = named mp \<and> check m dec = Inl (Exit 0 Help_screen)"
      using st' c by (simp add: check_def Let_def)
  qed
  have c: "\<And>ops d. fire_run argv n sa st ops = Inl (Exit 0 d) \<Longrightarrow>
             d = Help_screen \<and> st
             \<and> (\<exists>mp. parse (matcher_new n sa st) argv = Inr mp \<and> has_help_flag (named mp))"
  proof -
    fix ops d
    assume f: "fire_run argv n sa st ops = Inl (Exit 0 d)"
    show "d = Help_screen \<and> st
          \<and> (\<exists>mp. parse (matcher_new n sa st) argv = Inr mp \<and> has_help_flag (named mp))"
    proof (cases "parse (matcher_new n sa st) argv")
      case (Inl e)
      then have "e = Exit 0 d" using f by (simp add: fire_run_def matcher_init_def)
      with parse_Inl [OF Inl] show ?thesis by (simp add: failure_code_def)
    next
      case p: (Inr mp)
      show ?thesis
      proof (cases "matcher_init argv n sa st")
        case (Inl e)
        then have "e = Exit 0 d" using f by (simp add: fire_run_def)
        with Inl have "check ((if st then mp\<lparr>queried := [\<lparr>short_name = Some ''h'',
                        long_name = Some ''help'',
                        pos = None, vector = False, help_str = ''-h|--help'',
                        longer = ''--help''\<rparr>]\<rparr> else mp)
                     \<lparr>help_flag := has_help_flag (named mp)\<rparr>) False = Inl (Exit 0 d)"
          using matcher_init_eq [OF p] by simp
        from check_exit [OF this] show ?thesis using p parse_Inr_fresh [OF p]
          by (auto simp: failure_code_def matcher_new_def split: if_splits)
      next
        case (Inr m0)
        then have "run_ops m0 ops = Inl (Exit 0 d)" using f by (simp add: fire_run_def)
        from run_ops_Inl_zero [OF this] init_Inr [OF p Inr] show ?thesis using p by simp
      qed
    qed
  qed
  show ?thesis using a b c by blast
qed

theorem help_flag_flush_witness:
  "parse (matcher_new 0 True True) [''prog'', ''--help'']
     = Inr ((matcher_new 0 True True)\<lparr>executable := ''prog'', named := [(''help'', None)]\<rparr>)
   \<and> has_help_flag (named ((matcher_new 0 True True)
                              \<lparr>executable := ''prog'', named := [(''help'', None)]\<rparr>))
   \<and> matcher_init [''prog'', ''--help''] 0 True True = Inl (Exit 0 Help_screen)"
proof -
  have h1: "parse (matcher_new 0 True True) [''prog'', ''--help'']
     = Inr ((matcher_new 0 True True)\<lparr>executable := ''prog'', named := [(''help'', None)]\<rparr>)"
    by (rule parse_help_example)
  have h2: "has_help_flag (named ((matcher_new 0 True True)
                              \<lparr>executable := ''prog'', named := [(''help'', None)]\<rparr>))"
    by (simp add: has_help_flag_def)
  from help_flag_flush [of 0 True True "[''prog'', ''--help'']"] h1 h2
  show ?thesis by simp
qed

section \<open>Positional tokens and space assignment\<close>

lemma separate_loop_plain:
  "\<forall>s \<in> set raw. count_hyphens s = 0 \<Longrightarrow>
   separate_loop m nm ps False raw = Inr ((nm, ps @ raw), m)"
  by (induction raw arbitrary: ps) (simp_all add: Let_def)

lemma parse_plain:
  assumes "\<forall>s \<in> set raw. count_hyphens s = 0"
  shows "parse m (exe # raw) =
           (if space_assignment m then
              (case deferred_assert (m\<lparr>executable := exe, positional := raw, named := []\<rparr>)
                      identifier_vector (raw = [])
                      ''positional arguments given, but not accepted'' of
                 Inl e \<Rightarrow> Inl e
               | Inr r5 \<Rightarrow> Inr (snd r5))
            else Inr (m\<lparr>executable := exe, positional := raw, named := []\<rparr>))"
  using separate_loop_plain [OF assms, of "m\<lparr>executable := exe\<rparr>" "[]" "[]"]
  by (simp add: parse_def separate_named_positional_def split_equations_def
        assign_named_values_def)

lemma parse_last_statement:
  "parse m (exe # raw) =
     (case separate_named_positional (m\<lparr>executable := exe\<rparr>) raw of
        Inl e \<Rightarrow> Inl e
      | Inr r1 \<Rightarrow>
     (case split_equations ((snd r1)\<lparr>positional := snd (fst r1)\<rparr>) (fst (fst r1)) of
        Inl e \<Rightarrow> Inl e
      | Inr r2 \<Rightarrow>
     (case assign_named_values (snd r2) (fst r2) of
        Inl e \<Rightarrow> Inl e
      | Inr r3 \<Rightarrow>
     (case occurrence_outer ((snd r3)\<lparr>named := fst r3\<rparr>) [] (fst r3) of
        Inl e \<Rightarrow> Inl e
      | Inr m4 \<Rightarrow>
          (if space_assignment m \<and> snd (fst r1) \<noteq> [] then
             (if strict m
              then Inr (m4\<lparr>deferred_error :=
                             first_set identifier_vector
                               ''positional arguments given, but not accepted''
                               (deferred_error m4)\<rparr>)
              else Inl (Exit failure_code
                          (Error_line ''Error: positional arguments given, but not accepted'')))
           else Inr m4)))))"
proof (cases "separate_named_positional (m\<lparr>executable := exe\<rparr>) raw")
  case (Inl e)
  then show ?thesis by (simp add: parse_def)
next
  case r1: (Inr r1)
  show ?thesis
  proof (cases "split_equations ((snd r1)\<lparr>positional := snd (fst r1)\<rparr>) (fst (fst r1))")
    case (Inl e)
    then show ?thesis using r1 by (simp add: parse_def)
  next
    case r2: (Inr r2)
    show ?thesis
    proof (cases "assign_named_values (snd r2) (fst r2)")
      case (Inl e)
      then show ?thesis using r1 r2 by (simp add: parse_def)
    next
      case r3: (Inr r3)
      show ?thesis
      proof (cases "occurrence_outer ((snd r3)\<lparr>named := fst r3\<rparr>) [] (fst r3)")
        case (Inl e)
        then show ?thesis using r1 r2 r3 by (simp add: parse_def)
      next
        case m4: (Inr m4)
        have s1: "same_but_slot (m\<lparr>executable := exe\<rparr>) (snd r1)"
          using r1 separate_loop_Inr [of "m\<lparr>executable := exe\<rparr>" "[]" "[]" False raw r1]
          by (simp add: separate_named_positional_def)
        have s2: "same_but_slot ((snd r1)\<lparr>positional := snd (fst r1)\<rparr>) (snd r2)"
          using r2 split_loop_Inr [of "(snd r1)\<lparr>positional := snd (fst r1)\<rparr>" "[]" _ r2]
          by (simp add: split_equations_def)
        have s3: "same_but_slot (snd r2) (snd r3)"
          using r3 assign_loop_Inr [of "snd r2" "[]" "fst r2" r3]
          by (simp add: assign_named_values_def)
        have s4: "same_but_slot ((snd r3)\<lparr>named := fst r3\<rparr>) m4"
          using m4 by (rule occurrence_outer_Inr)
        from s1 s2 s3 s4 have cfg: "space_assignment m4 = space_assignment m"
          "strict m4 = strict m" "positional m4 = snd (fst r1)"
          by (simp_all add: same_but_slot_def)
        show ?thesis
          using r1 r2 r3 m4 cfg
          by (simp add: parse_def deferred_assert_def instant_assert_def)
      qed
    qed
  qed
qed

lemma first_set_not_empty [simp]: "\<not> slot_empty (first_set ident msg s)"
  by (simp add: first_set_def)

text \<open>
  C1, as the specification states it, fails: with space assignment disabled a positional
  token is accepted and the deferred error slot stays empty.
\<close>

theorem positional_accepted_without_space_assignment:
  "\<not> space_assignment (matcher_new 1 False True)
   \<and> parse (matcher_new 1 False True) [''prog'', ''file.txt''] =
       Inr ((matcher_new 1 False True)\<lparr>executable := ''prog'', positional := [''file.txt'']\<rparr>)
   \<and> slot_empty (deferred_error
        ((matcher_new 1 False True)\<lparr>executable := ''prog'', positional := [''file.txt'']\<rparr>))"
  by (simp add: parse_def separate_named_positional_def split_equations_def
        assign_named_values_def matcher_new_def Let_def first_new_def)

text \<open>
  C1 (amended): the rejection is tied to space assignment being enabled. For every token
  list, once the four classification steps of \<open>parse\<close> have returned, its last statement
  raises the error "positional arguments given, but not accepted" exactly when space
  assignment is enabled and the positional set is not empty: in strict mode the error is
  recorded in the deferred error slot through \<open>first_set\<close>, outside strict mode the run
  ends with it. With space assignment disabled, or with an empty positional set, the last
  statement changes nothing (fifth conjunct). In particular a \<open>parse\<close> under space
  assignment that leaves a non-empty positional sequence leaves the slot filled in strict
  mode and does not return outside it, and token lists without any hyphen prefix are
  rejected with exactly this error under space assignment and accepted without it.
\<close>

theorem positional_rejected_with_space_assignment:
  "(space_assignment m \<and> strict m \<and> parse m argv = Inr m' \<and> positional m' \<noteq> []
      \<longrightarrow> \<not> slot_empty (deferred_error m'))
   \<and> (space_assignment m \<and> \<not> strict m \<and> parse m argv = Inr m' \<longrightarrow> positional m' = [])
   \<and> (space_assignment m \<and> slot_empty (deferred_error m) \<and> raw \<noteq> []
        \<and> (\<forall>s \<in> set raw. count_hyphens s = 0) \<longrightarrow>
        parse m (exe # raw) =
          (if strict m
           then Inr (m\<lparr>executable := exe, positional := raw, named := [],
                      deferred_error :=
                        \<lparr>slot_order = identifier_vector,
                         slot_value = ''positional arguments given, but not accepted'',
                         slot_empty = False\<rparr>\<rparr>)
           else Inl (Exit failure_code
                       (Error_line ''Error: positional arguments given, but not accepted''))))
   \<and> (\<not> space_assignment m \<and> (\<forall>s \<in> set raw. count_hyphens s = 0) \<longrightarrow>
        parse m (exe # raw) = Inr (m\<lparr>executable := exe, positional := raw, named := []\<rparr>))
   \<and> parse m (exe # raw) =
     (case separate_named_positional (m\<lparr>executable := exe\<rparr>) raw of
        Inl e \<Rightarrow> Inl e
      | Inr r1 \<Rightarrow>
     (case split_equations ((snd r1)\<lparr>positional := snd (fst r1)\<rparr>) (fst (fst r1)) of
        Inl e \<Rightarrow> Inl e
      | Inr r2 \<Rightarrow>
     (case assign_named_values (snd r2) (fst r2) of
        Inl e \<Rightarrow> Inl e
      | Inr r3 \<Rightarrow>
     (case occurrence_outer ((snd r3)\<lparr>named := fst r3\<rparr>) [] (fst r3) of
        Inl e \<Rightarrow> Inl e
      | Inr m4 \<Rightarrow>
          (if space_assignment m \<and> snd (fst r1) \<noteq> [] then
             (if strict m
              then Inr (m4\<lparr>deferred_error :=
                             first_set identifier_vector
                               ''positional arguments given, but not accepted''
                               (deferred_error m4)\<rparr>)
              else Inl (Exit failure_code
                          (Error_line ''Error: positional arguments given, but not accepted'')))
           else Inr m4)))))"
proof -
  have fin: "space_assignment m \<Longrightarrow> parse m argv = Inr m' \<Longrightarrow>
             \<exists>m4. strict m4 = strict m \<and> positional m' = positional m4 \<and>
               deferred_assert m4 identifier_vector (positional m4 = [])
                 ''positional arguments given, but not accepted'' = Inr (positional m4 = [], m')"
  proof -
    assume sa: "space_assignment m" and p: "parse m argv = Inr m'"
    from p obtain exe raw r1 r2 r3 m4 where
      a: "separate_loop (m\<lparr>executable := exe\<rparr>) [] [] False raw = Inr r1"
      and b: "split_loop ((snd r1)\<lparr>positional := snd (fst r1)\<rparr>) [] (fst (fst r1)) = Inr r2"
      and c: "assign_loop (snd r2) [] (fst r2) = Inr r3"
      and d: "occurrence_outer ((snd r3)\<lparr>named := fst r3\<rparr>) [] (fst r3) = Inr m4"
      and e: "(if space_assignment m4 then
              (case deferred_assert m4 identifier_vector (positional m4 = [])
                      ''positional arguments given, but not accepted'' of
                 Inl e \<Rightarrow> Inl e
               | Inr r5 \<Rightarrow> Inr (snd r5))
            else Inr m4) = Inr m'"
      by (rule parse_Inr_steps)
    from separate_loop_Inr [OF a] split_loop_Inr [OF b] assign_loop_Inr [OF c]
      occurrence_outer_Inr [OF d]
    have cfg: "space_assignment m4 = space_assignment m \<and> strict m4 = strict m"
      by (simp add: same_but_slot_def)
    with sa e obtain r5 where
      da: "deferred_assert m4 identifier_vector (positional m4 = [])
             ''positional arguments given, but not accepted'' = Inr r5" and m': "m' = snd r5"
      by (auto split: sum.splits)
    from deferred_assert_Inr [OF da] m' have "fst r5 = (positional m4 = [])"
      and "positional m' = positional m4" by (simp_all add: same_but_slot_def)
    with da m' cfg show ?thesis by (cases r5) auto
  qed
  have a: "space_assignment m \<and> strict m \<and> parse m argv = Inr m' \<and> positional m' \<noteq> []
      \<longrightarrow> \<not> slot_empty (deferred_error m')"
    using fin by (auto simp: deferred_assert_strict)
  have b: "space_assignment m \<and> \<not> strict m \<and> parse m argv = Inr m' \<longrightarrow> positional m' = []"
    using fin by (auto dest!: deferred_assert_Inr)
  have c: "space_assignment m \<and> slot_empty (deferred_error m) \<and> raw \<noteq> []
        \<and> (\<forall>s \<in> set raw. count_hyphens s = 0) \<longrightarrow>
        parse m (exe # raw) =
          (if strict m
           then Inr (m\<lparr>executable := exe, positional := raw, named := [],
                      deferred_error :=
                        \<lparr>slot_order = identifier_vector,
                         slot_value = ''positional arguments given, but not accepted'',
                         slot_empty = False\<rparr>\<rparr>)
           else Inl (Exit failure_code
                       (Error_line ''Error: positional arguments given, but not accepted'')))"
    by (auto simp: parse_plain deferred_assert_def instant_assert_def first_set_def)
  have d: "\<not> space_assignment m \<and> (\<forall>s \<in> set raw. count_hyphens s = 0) \<longrightarrow>
        parse m (exe # raw) = Inr (m\<lparr>executable := exe, positional := raw, named := []\<rparr>)"
    by (simp add: parse_plain)
  note e = parse_last_statement [of m exe raw]
  show ?thesis using a b c d e by blast
qed

theorem positional_rejected_with_space_assignment_witness:
  "parse (matcher_new 1 True True) [''prog'', ''file.txt''] =
     Inr ((matcher_new 1 True True)
            \<lparr>executable := ''prog'', positional := [''file.txt''], named := [],
             deferred_error :=
               \<lparr>slot_order = identifier_vector,
                slot_value = ''positional arguments given, but not accepted'',
                slot_empty = False\<rparr>\<rparr>)
   \<and> parse (matcher_new 2 True True) [''prog'', ''--count=5'', ''file.txt''] =
     Inr ((matcher_new 2 True True)
            \<lparr>executable := ''prog'', positional := [''file.txt''],
             named := [(''count'', Some ''5'')],
             deferred_error :=
               \<lparr>slot_order = identifier_vector,
                slot_value = ''positional arguments given, but not accepted'',
                slot_empty = False\<rparr>\<rparr>)"
proof -
  have h1: "space_assignment (matcher_new 1 True True)"
    and h2: "slot_empty (deferred_error (matcher_new 1 True True))"
    and h3: "[''file.txt''] \<noteq> []" and h4: "\<forall>s \<in> set [''file.txt'']. count_hyphens s = 0"
    and h5: "strict (matcher_new 1 True True)"
    by (simp_all add: matcher_new_def first_new_def)
  note t1 = positional_rejected_with_space_assignment
         [of "matcher_new 1 True True" "[]" "matcher_new 1 True True" "[''file.txt'']" "''prog''"]
  from t1 [THEN conjunct2, THEN conjunct2, THEN conjunct1] h1 h2 h3 h4 h5
  have a: "parse (matcher_new 1 True True) [''prog'', ''file.txt''] =
     Inr ((matcher_new 1 True True)
            \<lparr>executable := ''prog'', positional := [''file.txt''], named := [],
             deferred_error :=
               \<lparr>slot_order = identifier_vector,
                slot_value = ''positional arguments given, but not accepted'',
                slot_empty = False\<rparr>\<rparr>)" by simp
  note t2 = positional_rejected_with_space_assignment
         [of "matcher_new 2 True True" "[]" "matcher_new 2 True True"
             "[''--count=5'', ''file.txt'']" "''prog''"]
  have b: "parse (matcher_new 2 True True) [''prog'', ''--count=5'', ''file.txt''] =
     Inr ((matcher_new 2 True True)
            \<lparr>executable := ''prog'', positional := [''file.txt''],
             named := [(''count'', Some ''5'')],
             deferred_error :=
               \<lparr>slot_order = identifier_vector,
                slot_value = ''positional arguments given, but not accepted'',
                slot_empty = False\<rparr>\<rparr>)"
    unfolding t2 [THEN conjunct2, THEN conjunct2, THEN conjunct2, THEN conjunct2]
    by (simp add: separate_named_positional_def split_equations_def assign_named_values_def
          matcher_new_def Let_def set_back_def first_set_def first_new_def)
  show ?thesis using a b by (rule conjI)
qed

section \<open>Bundled short flags\<close>

lemma find_char_None: "find_char xs c = None \<longleftrightarrow> c \<notin> set xs"
  by (induction xs) (auto split: option.splits)

lemma find_char_append:
  "c \<notin> set xs \<Longrightarrow> find_char (xs @ c # ys) c = Some (length xs)"
  by (induction xs) auto

lemma occurrence_inner_distinct:
  "n \<notin> set earlier \<Longrightarrow> occurrence_inner m n earlier = Inr m"
  by (induction earlier) auto

lemma occurrence_outer_distinct:
  "distinct (earlier @ map fst tab) \<Longrightarrow> occurrence_outer m earlier tab = Inr m"
  by (induction tab arbitrary: earlier) (auto simp: occurrence_inner_distinct)

lemma split_equations_Inr:
  "split_equations m nm = Inr (sp, m') \<Longrightarrow> same_but_slot m m'"
  using split_loop_Inr [of m "[]" nm "(sp, m')"] by (simp add: split_equations_def)

lemma assign_named_values_Inr:
  "assign_named_values m sp = Inr (tab, m') \<Longrightarrow> same_but_slot m m'"
  using assign_loop_Inr [of m "[]" sp "(tab, m')"] by (simp add: assign_named_values_def)

lemma separate_loop_flags:
  "\<forall>c \<in> set cs. \<not> isdigit c \<and> c \<noteq> CHR ''-'' \<Longrightarrow>
   separate_loop m nm ps tn (map (\<lambda>c. [CHR ''-'', c]) cs)
     = Inr ((nm @ map (\<lambda>c. [CHR ''-'', c]) cs, ps), m)"
  by (induction cs arbitrary: nm tn) (simp_all add: Let_def str_at_def)

lemma split_loop_flags:
  "\<forall>c \<in> set cs. c \<noteq> CHR ''='' \<Longrightarrow>
   split_loop m sp (map (\<lambda>c. [CHR ''-'', c]) cs)
     = Inr (sp @ map (\<lambda>c. ([CHR ''-'', c], False)) cs, m)"
  by (induction cs arbitrary: sp) (simp_all add: Let_def)

lemma assign_loop_flags:
  "\<forall>c \<in> set cs. \<not> isdigit c \<and> c \<noteq> CHR ''-'' \<Longrightarrow>
   assign_loop m args (map (\<lambda>c. ([CHR ''-'', c], False)) cs)
     = Inr (args @ map (\<lambda>c. ([c], None)) cs, m)"
  by (induction cs arbitrary: args) (simp_all add: Let_def str_at_def)

lemma parse_after_assign:
  assumes "separate_named_positional (m\<lparr>executable := exe\<rparr>) raw = Inr ((nm, []), m1)"
    and "split_equations (m1\<lparr>positional := []\<rparr>) nm = Inr (sp, m2)"
    and "assign_named_values m2 sp = Inr (tab, m3)"
  shows "parse m (exe # raw) = occurrence_outer (m3\<lparr>named := tab\<rparr>) [] tab"
proof (cases "occurrence_outer (m3\<lparr>named := tab\<rparr>) [] tab")
  case (Inl e)
  then show ?thesis using assms by (simp add: parse_def)
next
  case (Inr m4)
  from occurrence_outer_Inr [OF Inr] assign_named_values_Inr [OF assms(3)]
  have "positional m4 = positional m2" by (simp add: same_but_slot_def)
  also have "\<dots> = []" using split_equations_Inr [OF assms(2)] by (simp add: same_but_slot_def)
  finally have "positional m4 = []" .
  then show ?thesis using assms Inr by (simp add: parse_def)
qed

lemma parse_bundle:
  assumes "cs \<noteq> []" and "\<forall>c \<in> set cs. \<not> isdigit c \<and> c \<noteq> CHR ''-'' \<and> c \<noteq> CHR ''=''"
  shows "parse m [exe, CHR ''-'' # cs] =
           occurrence_outer (m\<lparr>executable := exe, positional := [],
                               named := map (\<lambda>c. ([c], None)) cs\<rparr>)
             [] (map (\<lambda>c. ([c], None)) cs)"
proof -
  obtain c cs' where cs: "cs = c # cs'" using assms(1) by (cases cs) auto
  have h: "count_hyphens cs = 0" using assms(2) cs by simp
  have d: "\<not> isdigit (str_at (CHR ''-'' # cs) 1)" "\<not> isdigit (str_at cs 0)"
    using assms(2) cs by (simp_all add: str_at_def)
  have "CHR ''='' \<notin> set (CHR ''-'' # cs)" using assms(2) by auto
  then have f: "find_char (CHR ''-'' # cs) CHR ''='' = None"
    by (simp only: find_char_None simp_thms)
  have len: "length cs \<ge> 1" using cs by simp
  have sep: "separate_named_positional (m\<lparr>executable := exe\<rparr>) [CHR ''-'' # cs]
               = Inr (([CHR ''-'' # cs], []), m\<lparr>executable := exe\<rparr>)"
    using h d(1) len by (simp add: separate_named_positional_def Let_def)
  have spl: "split_equations (m\<lparr>executable := exe, positional := []\<rparr>) [CHR ''-'' # cs]
               = Inr ([(CHR ''-'' # cs, False)], m\<lparr>executable := exe, positional := []\<rparr>)"
    using f by (simp add: split_equations_def Let_def)
  have asg: "assign_named_values (m\<lparr>executable := exe, positional := []\<rparr>)
               [(CHR ''-'' # cs, False)]
               = Inr (map (\<lambda>c. ([c], None)) cs, m\<lparr>executable := exe, positional := []\<rparr>)"
    using h d(2) by (simp add: assign_named_values_def Let_def)
  from parse_after_assign [OF sep spl asg] show ?thesis by simp
qed

lemma parse_flags:
  assumes "\<forall>c \<in> set cs. \<not> isdigit c \<and> c \<noteq> CHR ''-'' \<and> c \<noteq> CHR ''=''"
  shows "parse m (exe # map (\<lambda>c. [CHR ''-'', c]) cs) =
           occurrence_outer (m\<lparr>executable := exe, positional := [],
                               named := map (\<lambda>c. ([c], None)) cs\<rparr>)
             [] (map (\<lambda>c. ([c], None)) cs)"
proof -
  have sep: "separate_named_positional (m\<lparr>executable := exe\<rparr>) (map (\<lambda>c. [CHR ''-'', c]) cs)
               = Inr ((map (\<lambda>c. [CHR ''-'', c]) cs, []), m\<lparr>executable := exe\<rparr>)"
    using assms by (simp add: separate_named_positional_def separate_loop_flags)
  have spl: "split_equations (m\<lparr>executable := exe, positional := []\<rparr>)
               (map (\<lambda>c. [CHR ''-'', c]) cs)
               = Inr (map (\<lambda>c. ([CHR ''-'', c], False)) cs,
                      m\<lparr>executable := exe, positional := []\<rparr>)"
    using assms by (simp add: split_equations_def split_loop_flags)
  have asg: "assign_named_values (m\<lparr>executable := exe, positional := []\<rparr>)
               (map (\<lambda>c. ([CHR ''-'', c], False)) cs)
               = Inr (map (\<lambda>c. ([c], None)) cs, m\<lparr>executable := exe, positional := []\<rparr>)"
    using assms by (simp add: assign_named_values_def assign_loop_flags)
  from parse_after_assign [OF sep spl asg] show ?thesis by simp
qed

lemma occurrence_inner_strict:
  "strict m \<Longrightarrow> \<exists>m'. occurrence_inner m n earlier = Inr m'"
  by (induction earlier arbitrary: m) (auto simp: deferred_assert_strict)

lemma occurrence_outer_strict:
  "strict m \<Longrightarrow> \<exists>m'. occurrence_outer m earlier tab = Inr m'"
proof (induction tab arbitrary: m earlier)
  case Nil
  then show ?case by simp
next
  case (Cons it tab)
  from occurrence_inner_strict [OF Cons.prems] obtain m1 where
    i: "occurrence_inner m (fst it) earlier = Inr m1" by blast
  from occurrence_inner_Inr [OF i] Cons.prems have "strict m1" by (simp add: same_but_slot_def)
  from Cons.IH [OF this] i show ?case by simp
qed

lemma find_named_flag:
  "c \<in> set cs \<Longrightarrow> short_name ident = Some [c] \<Longrightarrow>
   find_named (map (\<lambda>c. ([c], None)) cs) ident = Some ([], bool_t)"
  by (induction cs) (auto simp: contains_name_def)

lemma identifier_name_short:
  "identifier_name [c] = Inr ident \<Longrightarrow> short_name ident = Some [c] \<and> pos ident = None"
  by (auto simp: identifier_name_def Let_def split: sum.splits)

lemma separate_loop_acc:
  "separate_loop m (nm0 @ nm) ps tn raw
     = map_sum id (apfst (apfst ((@) nm0))) (separate_loop m nm ps tn raw)"
proof (induction raw arbitrary: m nm ps tn)
  case Nil
  then show ?case by simp
next
  case (Cons s raw)
  show ?case
  proof (cases "deferred_assert m identifier_vector (count_hyphens s \<le> 2)
                  (''too many hyphens: '' @ s)")
    case (Inl e)
    then show ?thesis by (simp add: Let_def)
  next
    case (Inr r)
    show ?thesis
      unfolding separate_loop.simps Let_def Inr sum.case
      using Cons.IH [of "snd r" "nm @ [s]"] Cons.IH [of "snd r" nm]
      by simp
  qed
qed

lemma separate_loop_no_lookahead:
  "\<not> space_assignment m \<Longrightarrow>
   separate_loop m nm ps True raw = separate_loop m nm ps False raw"
proof (induction raw arbitrary: m nm ps)
  case Nil
  then show ?case by simp
next
  case (Cons s raw)
  show ?case
  proof (cases "deferred_assert m identifier_vector (count_hyphens s \<le> 2)
                  (''too many hyphens: '' @ s)")
    case (Inl e)
    then show ?thesis by (simp add: Let_def)
  next
    case (Inr r)
    from deferred_assert_Inr [OF Inr] Cons.prems have "\<not> space_assignment (snd r)"
      by (simp add: same_but_slot_def)
    from Cons.IH [OF this] this show ?thesis
      unfolding separate_loop.simps Let_def Inr sum.case by simp
  qed
qed

lemma separate_loop_candidate_first:
  "named_token_candidate s \<Longrightarrow>
   separate_loop m nm ps True (s # raw) = separate_loop m nm ps False (s # raw)"
  by (simp add: named_token_candidate_def Let_def split: sum.splits)

lemma separate_loop_lookahead_free:
  assumes "\<not> space_assignment m \<or> post = [] \<or> named_token_candidate (hd post)"
  shows "separate_loop m nm ps tn post = separate_loop m nm ps False post"
proof (cases tn)
  case False
  then show ?thesis by simp
next
  case True
  show ?thesis
  proof (cases post)
    case Nil
    then show ?thesis by simp
  next
    case (Cons s raw)
    show ?thesis
    proof (cases "space_assignment m")
      case False
      then show ?thesis using True separate_loop_no_lookahead by simp
    next
      case sa: True
      then have "named_token_candidate s" using assms Cons by simp
      then show ?thesis using True Cons separate_loop_candidate_first by simp
    qed
  qed
qed

lemma separate_loop_bundle_step:
  assumes "cs \<noteq> []" and "\<forall>c \<in> set cs. \<not> isdigit c \<and> c \<noteq> CHR ''-'' \<and> c \<noteq> CHR ''=''"
  shows "separate_loop m nm ps tn ((CHR ''-'' # cs) # rest)
           = separate_loop m (nm @ [CHR ''-'' # cs]) ps (length cs = 1) rest"
proof -
  obtain c cs' where cs: "cs = c # cs'" using assms(1) by (cases cs) auto
  have h: "count_hyphens cs = 0" using assms(2) cs by simp
  have d: "\<not> isdigit (str_at (CHR ''-'' # cs) 1)"
    using assms(2) cs by (simp add: str_at_def)
  have "CHR ''='' \<notin> set (CHR ''-'' # cs)" using assms(2) by auto
  then have f: "find_char (CHR ''-'' # cs) CHR ''='' = None"
    by (simp only: find_char_None simp_thms)
  have len: "length cs \<ge> 1" using cs by simp
  show ?thesis
    unfolding separate_loop.simps Let_def f using h d len by simp
qed

lemma separate_loop_flags_step:
  assumes "cs \<noteq> []" and "\<forall>c \<in> set cs. \<not> isdigit c \<and> c \<noteq> CHR ''-'' \<and> c \<noteq> CHR ''=''"
  shows "separate_loop m nm ps tn (map (\<lambda>c. [CHR ''-'', c]) cs @ rest)
           = separate_loop m (nm @ map (\<lambda>c. [CHR ''-'', c]) cs) ps True rest"
  using assms
proof (induction cs arbitrary: nm tn)
  case Nil
  then show ?case by simp
next
  case (Cons c cs)
  have one: "\<And>nm tn. separate_loop m nm ps tn ([CHR ''-'', c] # map (\<lambda>c. [CHR ''-'', c]) cs @ rest)
           = separate_loop m (nm @ [[CHR ''-'', c]]) ps True (map (\<lambda>c. [CHR ''-'', c]) cs @ rest)"
    using Cons.prems(2) by (simp add: Let_def str_at_def)
  show ?case
  proof (cases "cs = []")
    case True
    then show ?thesis using one by simp
  next
    case False
    from Cons.IH [OF False] Cons.prems(2) one show ?thesis by simp
  qed
qed


lemma separate_loop_context:
  assumes "cs \<noteq> []" and "\<forall>c \<in> set cs. \<not> isdigit c \<and> c \<noteq> CHR ''-'' \<and> c \<noteq> CHR ''=''"
    and "\<not> space_assignment m \<or> post = [] \<or> named_token_candidate (hd post)"
  shows "\<exists>n1 X.
           separate_loop m nm ps tn (pre @ (CHR ''-'' # cs) # post)
             = map_sum id (apfst (apfst (\<lambda>n. n1 @ [CHR ''-'' # cs] @ n))) X
         \<and> separate_loop m nm ps tn (pre @ map (\<lambda>c. [CHR ''-'', c]) cs @ post)
             = map_sum id (apfst (apfst (\<lambda>n. n1 @ map (\<lambda>c. [CHR ''-'', c]) cs @ n))) X"
  using assms(3)
proof (induction pre arbitrary: m nm ps tn)
  case Nil
  let ?X = "separate_loop m [] ps False post"
  have "separate_loop m nm ps tn ((CHR ''-'' # cs) # post)
          = separate_loop m (nm @ [CHR ''-'' # cs]) ps (length cs = 1) post"
    by (rule separate_loop_bundle_step [OF assms(1,2)])
  also have "\<dots> = separate_loop m (nm @ [CHR ''-'' # cs]) ps False post"
    by (rule separate_loop_lookahead_free [OF Nil.prems])
  also have "\<dots> = map_sum id (apfst (apfst ((@) (nm @ [CHR ''-'' # cs])))) ?X"
    using separate_loop_acc [of m "nm @ [CHR ''-'' # cs]" "[]" ps False post]
    by (simp only: append_Nil2)
  also have "(@) (nm @ [CHR ''-'' # cs]) = (\<lambda>n. nm @ [CHR ''-'' # cs] @ n)"
    by (simp add: fun_eq_iff)
  finally have a: "separate_loop m nm ps tn ((CHR ''-'' # cs) # post)
             = map_sum id (apfst (apfst (\<lambda>n. nm @ [CHR ''-'' # cs] @ n))) ?X" .
  have "separate_loop m nm ps tn (map (\<lambda>c. [CHR ''-'', c]) cs @ post)
          = separate_loop m (nm @ map (\<lambda>c. [CHR ''-'', c]) cs) ps True post"
    by (rule separate_loop_flags_step [OF assms(1,2)])
  also have "\<dots> = separate_loop m (nm @ map (\<lambda>c. [CHR ''-'', c]) cs) ps False post"
    by (rule separate_loop_lookahead_free [OF Nil.prems])
  also have "\<dots> = map_sum id (apfst (apfst ((@) (nm @ map (\<lambda>c. [CHR ''-'', c]) cs)))) ?X"
    using separate_loop_acc [of m "nm @ map (\<lambda>c. [CHR ''-'', c]) cs" "[]" ps False post]
    by (simp only: append_Nil2)
  also have "(@) (nm @ map (\<lambda>c. [CHR ''-'', c]) cs)
               = (\<lambda>n. nm @ map (\<lambda>c. [CHR ''-'', c]) cs @ n)"
    by (simp add: fun_eq_iff)
  finally have b: "separate_loop m nm ps tn (map (\<lambda>c. [CHR ''-'', c]) cs @ post)
             = map_sum id (apfst (apfst (\<lambda>n. nm @ map (\<lambda>c. [CHR ''-'', c]) cs @ n))) ?X" .
  show ?case unfolding append_Nil using a b by blast
next
  case (Cons s pre)
  have ac: "\<And>rest. (s # pre) @ rest = s # (pre @ rest)" by simp
  show ?case
  proof (cases "deferred_assert m identifier_vector (count_hyphens s \<le> 2)
                  (''too many hyphens: '' @ s)")
    case (Inl e)
    show ?thesis
      unfolding ac separate_loop.simps Let_def Inl sum.case
      by (intro exI [of _ "[]"] exI [of _ "Inl e"]) simp
  next
    case (Inr r)
    from deferred_assert_Inr [OF Inr] Cons.prems
    have la: "\<not> space_assignment (snd r) \<or> post = [] \<or> named_token_candidate (hd post)"
      by (simp add: same_but_slot_def)
    show ?thesis
      unfolding ac separate_loop.simps Let_def Inr sum.case
      using Cons.IH [OF la] by (simp split: if_splits)
  qed
qed

lemma split_loop_append:
  "split_loop m sp (xs @ ys)
     = (case split_loop m sp xs of Inl e \<Rightarrow> Inl e | Inr r \<Rightarrow> split_loop (snd r) (fst r) ys)"
proof (induction xs arbitrary: m sp)
  case Nil
  then show ?case by simp
next
  case (Cons x xs)
  show ?case
  proof (cases "find_char x CHR ''=''")
    case None
    then show ?thesis using Cons.IH by (simp add: Let_def)
  next
    case (Some eq)
    then show ?thesis using Cons.IH by (simp add: Let_def split: sum.splits)
  qed
qed

lemma split_loop_acc:
  "split_loop m (sp0 @ sp) ys = map_sum id (apfst ((@) sp0)) (split_loop m sp ys)"
proof (induction ys arbitrary: m sp)
  case Nil
  then show ?case by simp
next
  case (Cons x xs)
  show ?case
  proof (cases "find_char x CHR ''=''")
    case None
    then show ?thesis using Cons.IH [of m "sp @ [(x, False)]"] by (simp add: Let_def)
  next
    case (Some eq)
    then show ?thesis
      using Cons.IH [of _ sp]
        Cons.IH [of _ "sp @ [(take eq x, False), (drop (Suc eq) x, True)]"]
      by (simp add: Let_def split: sum.splits)
  qed
qed

lemma assign_loop_step:
  "(\<exists>e. \<forall>rest. assign_loop m args (x # rest) = Inl e)
   \<or> (\<exists>m' args'. \<forall>rest. assign_loop m args (x # rest) = assign_loop m' args' rest)"
proof -
  let ?h = "count_hyphens (fst x)"
  let ?d = "deferred_assert m identifier_vector (length (drop ?h (fst x)) \<ge> 2)
              (''single character parameter '' @ fst x @ '' must have exactly one hyphen'')"
  consider (val) "snd x \<or> (?h \<noteq> 2 \<and> ?h = 1 \<and> isdigit (str_at (drop ?h (fst x)) 0))"
    | (long) "\<not> snd x" "?h = 2"
    | (flags) "\<not> snd x" "?h \<noteq> 2" "?h = 1" "\<not> isdigit (str_at (drop ?h (fst x)) 0)"
    | (plain) "\<not> snd x" "?h \<noteq> 2" "?h \<noteq> 1" "?h = 0"
    | (skip) "\<not> snd x" "?h \<noteq> 2" "?h \<noteq> 1" "?h \<noteq> 0"
    by blast
  then show ?thesis
  proof cases
    case val
    show ?thesis
    proof (cases "set_back args (fst x)")
      case (Inl e)
      then have "\<forall>rest. assign_loop m args (x # rest) = Inl e"
        using val by (auto simp: Let_def)
      then show ?thesis by blast
    next
      case (Inr a')
      then have "\<forall>rest. assign_loop m args (x # rest) = assign_loop m a' rest"
        using val by (auto simp: Let_def)
      then show ?thesis by blast
    qed
  next
    case long
    show ?thesis
    proof (cases ?d)
      case (Inl e)
      have "\<forall>rest. assign_loop m args (x # rest) = Inl e"
        unfolding assign_loop.simps Let_def using long Inl by simp
      then show ?thesis by blast
    next
      case (Inr r)
      have "\<forall>rest. assign_loop m args (x # rest)
              = assign_loop (snd r) (args @ [(drop ?h (fst x), None)]) rest"
        unfolding assign_loop.simps Let_def using long Inr by simp
      then show ?thesis by blast
    qed
  next
    case flags
    have "\<forall>rest. assign_loop m args (x # rest)
            = assign_loop m (args @ map (\<lambda>c. ([c], None)) (drop ?h (fst x))) rest"
      using flags by (simp add: Let_def)
    then show ?thesis by blast
  next
    case plain
    show ?thesis
    proof (cases "set_back args (drop ?h (fst x))")
      case (Inl e)
      then have "\<forall>rest. assign_loop m args (x # rest) = Inl e"
        using plain by (simp add: Let_def)
      then show ?thesis by blast
    next
      case (Inr a')
      then have "\<forall>rest. assign_loop m args (x # rest) = assign_loop m a' rest"
        using plain by (simp add: Let_def)
      then show ?thesis by blast
    qed
  next
    case skip
    have "\<forall>rest. assign_loop m args (x # rest) = assign_loop m args rest"
      using skip by (simp add: Let_def)
    then show ?thesis by blast
  qed
qed

lemma assign_loop_append:
  "assign_loop m args (xs @ ys)
     = (case assign_loop m args xs of
          Inl e \<Rightarrow> Inl e
        | Inr r \<Rightarrow> assign_loop (snd r) (fst r) ys)"
proof (induction xs arbitrary: m args)
  case Nil
  then show ?case by simp
next
  case (Cons x xs)
  from assign_loop_step [of m args x] show ?case
  proof
    assume "\<exists>e. \<forall>rest. assign_loop m args (x # rest) = Inl e"
    then obtain e where "\<And>rest. assign_loop m args (x # rest) = Inl e" by blast
    then show ?thesis by (simp only: append_Cons sum.case)
  next
    assume "\<exists>m' args'. \<forall>rest. assign_loop m args (x # rest) = assign_loop m' args' rest"
    then obtain m' args' where
      "\<And>rest. assign_loop m args (x # rest) = assign_loop m' args' rest" by blast
    then show ?thesis by (simp only: append_Cons Cons.IH)
  qed
qed


lemma split_loop_bundle:
  assumes "\<forall>c \<in> set cs. \<not> isdigit c \<and> c \<noteq> CHR ''-'' \<and> c \<noteq> CHR ''=''"
  shows "split_loop m sp ((CHR ''-'' # cs) # rest)
           = split_loop m (sp @ [(CHR ''-'' # cs, False)]) rest"
proof -
  have "CHR ''='' \<notin> set (CHR ''-'' # cs)" using assms by auto
  then have f: "find_char (CHR ''-'' # cs) CHR ''='' = None"
    by (simp only: find_char_None simp_thms)
  show ?thesis unfolding split_loop.simps Let_def f by simp
qed

lemma assign_loop_bundle:
  assumes "cs \<noteq> []" and "\<forall>c \<in> set cs. \<not> isdigit c \<and> c \<noteq> CHR ''-'' \<and> c \<noteq> CHR ''=''"
  shows "assign_loop m args ((CHR ''-'' # cs, False) # rest)
           = assign_loop m (args @ map (\<lambda>c. ([c], None)) cs) rest"
proof -
  obtain c cs' where cs: "cs = c # cs'" using assms(1) by (cases cs) auto
  have h: "count_hyphens cs = 0" using assms(2) cs by simp
  have d: "\<not> isdigit (str_at cs 0)" using assms(2) cs by (simp add: str_at_def)
  show ?thesis using h d by (simp add: Let_def)
qed

lemma split_assign_context:
  assumes "cs \<noteq> []" and "\<forall>c \<in> set cs. \<not> isdigit c \<and> c \<noteq> CHR ''-'' \<and> c \<noteq> CHR ''=''"
  shows "(case split_loop m [] (n1 @ [CHR ''-'' # cs] @ n) of
            Inl e \<Rightarrow> Inl e
          | Inr r2 \<Rightarrow> assign_loop (snd r2) [] (fst r2))
       = (case split_loop m [] (n1 @ map (\<lambda>c. [CHR ''-'', c]) cs @ n) of
            Inl e \<Rightarrow> Inl e
          | Inr r2 \<Rightarrow> assign_loop (snd r2) [] (fst r2))"
proof (cases "split_loop m [] n1")
  case (Inl e)
  then show ?thesis by (simp add: split_loop_append)
next
  case r: (Inr r)
  let ?b = "CHR ''-'' # cs"
  let ?fl = "map (\<lambda>c. [CHR ''-'', c]) cs"
  let ?flF = "map (\<lambda>c. ([CHR ''-'', c], False)) cs"
  let ?block = "map (\<lambda>c. ([c], None :: string option)) cs"
  have c3: "\<forall>c \<in> set cs. c \<noteq> CHR ''=''" and c12: "\<forall>c \<in> set cs. \<not> isdigit c \<and> c \<noteq> CHR ''-''"
    using assms(2) by auto
  have "split_loop m [] (n1 @ [?b] @ n) = split_loop (snd r) (fst r) (?b # n)"
    by (simp only: split_loop_append r sum.case append_Cons append_Nil)
  also have "\<dots> = split_loop (snd r) (fst r @ [(?b, False)]) n"
    by (rule split_loop_bundle [OF assms(2)])
  also have "\<dots> = map_sum id (apfst ((@) (fst r @ [(?b, False)]))) (split_loop (snd r) [] n)"
    using split_loop_acc [of "snd r" "fst r @ [(?b, False)]" "[]" n]
    by (simp only: append_Nil2)
  finally have A: "split_loop m [] (n1 @ [?b] @ n)
             = map_sum id (apfst ((@) (fst r @ [(?b, False)]))) (split_loop (snd r) [] n)" .
  have B: "split_loop m [] (n1 @ ?fl @ n)
             = map_sum id (apfst ((@) (fst r @ ?flF))) (split_loop (snd r) [] n)"
    using split_loop_acc [of "snd r" "fst r @ ?flF" "[]" n]
    by (simp add: split_loop_append r split_loop_flags [OF c3])
  show ?thesis
  proof (cases "split_loop (snd r) [] n")
    case (Inl e)
    then show ?thesis unfolding A B by simp
  next
    case q: (Inr q)
    have A': "assign_loop (snd q) [] (fst r @ [(?b, False)] @ fst q)
                = (case assign_loop (snd q) [] (fst r) of
                     Inl e \<Rightarrow> Inl e
                   | Inr ra \<Rightarrow> assign_loop (snd ra) (fst ra @ ?block) (fst q))"
      by (simp add: assign_loop_append assign_loop_bundle [OF assms] del: assign_loop.simps
            split: sum.splits)
    have B': "assign_loop (snd q) [] (fst r @ ?flF @ fst q)
                = (case assign_loop (snd q) [] (fst r) of
                     Inl e \<Rightarrow> Inl e
                   | Inr ra \<Rightarrow> assign_loop (snd ra) (fst ra @ ?block) (fst q))"
      by (simp add: assign_loop_append assign_loop_flags [OF c12] split: sum.splits)
    show ?thesis unfolding A B q using A' B' by simp
  qed
qed

lemma parse_stages:
  "parse m (exe # raw) =
     (case separate_loop (m\<lparr>executable := exe\<rparr>) [] [] False raw of
        Inl e \<Rightarrow> Inl e
      | Inr r1 \<Rightarrow>
     (case (case split_loop ((snd r1)\<lparr>positional := snd (fst r1)\<rparr>) [] (fst (fst r1)) of
              Inl e \<Rightarrow> Inl e
            | Inr r2 \<Rightarrow> assign_loop (snd r2) [] (fst r2)) of
        Inl e \<Rightarrow> Inl e
      | Inr r3 \<Rightarrow>
     (case occurrence_outer ((snd r3)\<lparr>named := fst r3\<rparr>) [] (fst r3) of
        Inl e \<Rightarrow> Inl e
      | Inr m4 \<Rightarrow>
          (if space_assignment m4 then
             (case deferred_assert m4 identifier_vector (positional m4 = [])
                     ''positional arguments given, but not accepted'' of
                Inl e \<Rightarrow> Inl e
              | Inr r5 \<Rightarrow> Inr (snd r5))
           else Inr m4))))"
  by (simp add: parse_def separate_named_positional_def split_equations_def
        assign_named_values_def split: sum.splits)

lemma parse_bundle_context:
  assumes "cs \<noteq> []" and "\<forall>c \<in> set cs. \<not> isdigit c \<and> c \<noteq> CHR ''-'' \<and> c \<noteq> CHR ''=''"
    and "\<not> space_assignment m \<or> post = [] \<or> named_token_candidate (hd post)"
  shows "parse m (exe # pre @ [CHR ''-'' # cs] @ post)
           = parse m (exe # pre @ map (\<lambda>c. [CHR ''-'', c]) cs @ post)"
proof -
  have la: "\<not> space_assignment (m\<lparr>executable := exe\<rparr>) \<or> post = []
            \<or> named_token_candidate (hd post)" using assms(3) by simp
  from separate_loop_context [OF assms(1,2) la, of "[]" "[]" False pre]
  obtain n1 X where
    a: "separate_loop (m\<lparr>executable := exe\<rparr>) [] [] False (pre @ (CHR ''-'' # cs) # post)
             = map_sum id (apfst (apfst (\<lambda>n. n1 @ [CHR ''-'' # cs] @ n))) X"
    and b: "separate_loop (m\<lparr>executable := exe\<rparr>) [] [] False
              (pre @ map (\<lambda>c. [CHR ''-'', c]) cs @ post)
             = map_sum id (apfst (apfst (\<lambda>n. n1 @ map (\<lambda>c. [CHR ''-'', c]) cs @ n))) X"
    by blast
  have l: "pre @ [CHR ''-'' # cs] @ post = pre @ (CHR ''-'' # cs) # post" by simp
  show ?thesis
  proof (cases X)
    case (Inl e)
    then show ?thesis unfolding parse_stages l a b by simp
  next
    case (Inr x)
    show ?thesis
      unfolding parse_stages l a b Inr
      using split_assign_context [OF assms(1,2), of "(snd x)\<lparr>positional := snd (fst x)\<rparr>"
               n1 "fst (fst x)"]
      by simp
  qed
qed


lemma parse_bundle_then_plain:
  assumes "cs \<noteq> []" and "\<forall>c \<in> set cs. \<not> isdigit c \<and> c \<noteq> CHR ''-'' \<and> c \<noteq> CHR ''=''"
    and "length cs \<ge> 2 \<or> \<not> space_assignment m" and "\<forall>s \<in> set post. count_hyphens s = 0"
  shows "parse m (exe # (CHR ''-'' # cs) # post) =
           (case occurrence_outer (m\<lparr>executable := exe, positional := post,
                                      named := map (\<lambda>c. ([c], None)) cs\<rparr>)
                   [] (map (\<lambda>c. ([c], None)) cs) of
              Inl e \<Rightarrow> Inl e
            | Inr m4 \<Rightarrow>
                (if space_assignment m4 then
                   (case deferred_assert m4 identifier_vector (positional m4 = [])
                           ''positional arguments given, but not accepted'' of
                      Inl e \<Rightarrow> Inl e
                    | Inr r5 \<Rightarrow> Inr (snd r5))
                 else Inr m4))"
proof -
  let ?b = "CHR ''-'' # cs"
  let ?m0 = "m\<lparr>executable := exe\<rparr>"
  have tn: "separate_loop ?m0 [?b] [] (length cs = 1) post
              = separate_loop ?m0 [?b] [] False post"
  proof (cases "length cs = 1")
    case True
    then have "\<not> space_assignment ?m0" using assms(3) by simp
    from separate_loop_no_lookahead [OF this] True show ?thesis by simp
  next
    case False
    then show ?thesis by simp
  qed
  have sep: "separate_loop ?m0 [] [] False (?b # post) = Inr (([?b], post), ?m0)"
    using separate_loop_bundle_step [OF assms(1,2), of ?m0 "[]" "[]" False post]
      tn separate_loop_plain [OF assms(4), of ?m0 "[?b]" "[]"]
    by (simp only: append_Nil)
  have spl: "split_loop (?m0\<lparr>positional := post\<rparr>) [] [?b]
               = Inr ([(?b, False)], ?m0\<lparr>positional := post\<rparr>)"
    using split_loop_bundle [OF assms(2), of "?m0\<lparr>positional := post\<rparr>" "[]" "[]"]
    by (simp only: append_Nil split_loop.simps(1))
  have asg: "assign_loop (?m0\<lparr>positional := post\<rparr>) [] [(?b, False)]
               = Inr (map (\<lambda>c. ([c], None)) cs, ?m0\<lparr>positional := post\<rparr>)"
    using assign_loop_bundle [OF assms(1,2), of "?m0\<lparr>positional := post\<rparr>" "[]" "[]"]
    by (simp only: append_Nil assign_loop.simps(1))
  show ?thesis
    unfolding parse_stages sep sum.case fst_conv snd_conv spl asg by simp
qed

lemma bundle_then_plain_tables:
  assumes "cs \<noteq> []" and "\<forall>c \<in> set cs. \<not> isdigit c \<and> c \<noteq> CHR ''-'' \<and> c \<noteq> CHR ''=''"
    and "length cs \<ge> 2 \<or> \<not> space_assignment m" and "\<forall>s \<in> set post. count_hyphens s = 0"
  shows "(strict m \<longrightarrow> (\<exists>m'. parse m (exe # (CHR ''-'' # cs) # post) = Inr m'))
       \<and> (\<forall>m'. parse m (exe # (CHR ''-'' # cs) # post) = Inr m' \<longrightarrow>
             named m' = map (\<lambda>c. ([c], None)) cs \<and> positional m' = post)"
proof -
  let ?tab = "map (\<lambda>c. ([c], None :: string option)) cs"
  let ?m3 = "m\<lparr>executable := exe, positional := post, named := ?tab\<rparr>"
  note p = parse_bundle_then_plain [OF assms, of exe]
  have a: "strict m \<Longrightarrow> \<exists>m'. parse m (exe # (CHR ''-'' # cs) # post) = Inr m'"
  proof -
    assume st: "strict m"
    then have "strict ?m3" by simp
    from occurrence_outer_strict [OF this, of "[]" ?tab] obtain m4 where
      o: "occurrence_outer ?m3 [] ?tab = Inr m4" by blast
    from occurrence_outer_Inr [OF o] st have "strict m4" by (simp add: same_but_slot_def)
    then show ?thesis unfolding p o by (simp add: deferred_assert_strict)
  qed
  have b: "\<And>m'. parse m (exe # (CHR ''-'' # cs) # post) = Inr m' \<Longrightarrow>
             named m' = ?tab \<and> positional m' = post"
  proof -
    fix m'
    assume "parse m (exe # (CHR ''-'' # cs) # post) = Inr m'"
    then obtain m4 where o: "occurrence_outer ?m3 [] ?tab = Inr m4"
      and f: "(if space_assignment m4 then
                   (case deferred_assert m4 identifier_vector (positional m4 = [])
                           ''positional arguments given, but not accepted'' of
                      Inl e \<Rightarrow> Inl e
                    | Inr r5 \<Rightarrow> Inr (snd r5))
                 else Inr m4) = Inr m'"
      unfolding p by (cases "occurrence_outer ?m3 [] ?tab") simp_all
    from occurrence_outer_Inr [OF o] parse_final_Inr [OF f]
    show "named m' = ?tab \<and> positional m' = post" by (simp add: same_but_slot_def)
  qed
  show ?thesis using a b by blast
qed

text \<open>
  C7: for a non-empty string \<open>cs\<close> of name characters (no digit, no hyphen, no equals
  sign), the token \<open>-cs\<close> and the tokens \<open>-c\<close>, one per character of \<open>cs\<close>, are parsed
  to the same result, in either error mode, alone (first conjunct) and among any other
  tokens \<open>pre\<close> and \<open>post\<close> as long as no space-assignment lookahead is in play after
  them: space assignment is disabled, or nothing follows, or the token that follows is
  named by its own hyphens (fourth conjunct). Whatever precedes and follows, the three
  loops treat the bundle the same way: it is classified as named, it is not split, and it
  is expanded into one value-less entry per character appended to the table (fifth to
  seventh conjuncts). For the single token the parse returns in strict mode, and also
  outside it when the characters are distinct; when it returns, the named table is one
  value-less entry per character, nothing is positional, and a query for any of the
  characters as a short name finds a flag (\<open>bool_t\<close>) as long as the ledger holds no
  overlapping identifier. Followed by tokens without hyphen prefix that are not taken as
  a value, the bundle still gives exactly these entries and the tokens stay positional
  (last conjunct).
\<close>

theorem bundled_flags_expand:
  assumes "cs \<noteq> []" and "\<forall>c \<in> set cs. \<not> isdigit c \<and> c \<noteq> CHR ''-'' \<and> c \<noteq> CHR ''=''"
  shows "parse m [exe, CHR ''-'' # cs] = parse m (exe # map (\<lambda>c. [CHR ''-'', c]) cs)
       \<and> (strict m \<or> distinct cs \<longrightarrow> (\<exists>m'. parse m [exe, CHR ''-'' # cs] = Inr m'))
       \<and> (\<forall>m'. parse m [exe, CHR ''-'' # cs] = Inr m' \<longrightarrow>
             named m' = map (\<lambda>c. ([c], None)) cs \<and> positional m' = []
           \<and> (\<forall>c \<in> set cs. \<forall>ident.
                 identifier_name [c] = Inr ident
                 \<and> (\<forall>it \<in> set (queried m'). \<not> overlaps it ident)
                 \<longrightarrow> (\<exists>m''. get_and_mark_as_queried m' ident = Inr (([], bool_t), m''))))
       \<and> (\<forall>pre post.
             \<not> space_assignment m \<or> post = [] \<or> named_token_candidate (hd post) \<longrightarrow>
             parse m (exe # pre @ [CHR ''-'' # cs] @ post)
               = parse m (exe # pre @ map (\<lambda>c. [CHR ''-'', c]) cs @ post))
       \<and> (\<forall>m1 nm ps tn rest.
             separate_loop m1 nm ps tn ((CHR ''-'' # cs) # rest)
               = separate_loop m1 (nm @ [CHR ''-'' # cs]) ps (length cs = 1) rest)
       \<and> (\<forall>m1 sp rest.
             split_loop m1 sp ((CHR ''-'' # cs) # rest)
               = split_loop m1 (sp @ [(CHR ''-'' # cs, False)]) rest)
       \<and> (\<forall>m1 args rest.
             assign_loop m1 args ((CHR ''-'' # cs, False) # rest)
               = assign_loop m1 (args @ map (\<lambda>c. ([c], None)) cs) rest)
       \<and> (\<forall>post.
             (length cs \<ge> 2 \<or> \<not> space_assignment m) \<and> (\<forall>s \<in> set post. count_hyphens s = 0)
             \<longrightarrow> (strict m \<longrightarrow> (\<exists>m'. parse m (exe # (CHR ''-'' # cs) # post) = Inr m'))
               \<and> (\<forall>m'. parse m (exe # (CHR ''-'' # cs) # post) = Inr m' \<longrightarrow>
                     named m' = map (\<lambda>c. ([c], None)) cs \<and> positional m' = post))"
proof -
  let ?tab = "map (\<lambda>c. ([c], None :: string option)) cs"
  let ?m0 = "m\<lparr>executable := exe, positional := [], named := ?tab\<rparr>"
  note l = parse_bundle [OF assms, of m exe]
  note r = parse_flags [OF assms(2), of m exe]
  have a: "parse m [exe, CHR ''-'' # cs] = parse m (exe # map (\<lambda>c. [CHR ''-'', c]) cs)"
    using l r by simp
  have b1: "distinct cs \<Longrightarrow> \<exists>m'. parse m [exe, CHR ''-'' # cs] = Inr m'"
    unfolding l by (simp add: occurrence_outer_distinct distinct_map inj_on_def comp_def)
  have b2: "strict m \<Longrightarrow> \<exists>m'. parse m [exe, CHR ''-'' # cs] = Inr m'"
    unfolding l by (rule occurrence_outer_strict) simp
  have c: "\<And>m'. parse m [exe, CHR ''-'' # cs] = Inr m' \<Longrightarrow>
             named m' = ?tab \<and> positional m' = []
           \<and> (\<forall>c \<in> set cs. \<forall>ident.
                 identifier_name [c] = Inr ident
                 \<and> (\<forall>it \<in> set (queried m'). \<not> overlaps it ident)
                 \<longrightarrow> (\<exists>m''. get_and_mark_as_queried m' ident = Inr (([], bool_t), m'')))"
  proof -
    fix m'
    assume p: "parse m [exe, CHR ''-'' # cs] = Inr m'"
    then have "same_but_slot ?m0 m'" unfolding l by (rule occurrence_outer_Inr)
    then have n: "named m' = ?tab" and ps: "positional m' = []"
      by (simp_all add: same_but_slot_def)
    have q: "\<And>c ident. c \<in> set cs \<Longrightarrow> identifier_name [c] = Inr ident \<Longrightarrow>
               \<forall>it \<in> set (queried m'). \<not> overlaps it ident \<Longrightarrow>
               \<exists>m''. get_and_mark_as_queried m' ident = Inr (([], bool_t), m'')"
    proof -
      fix c ident
      assume c: "c \<in> set cs" and i: "identifier_name [c] = Inr ident"
        and o: "\<forall>it \<in> set (queried m'). \<not> overlaps it ident"
      from identifier_name_short [OF i] have sn: "short_name ident = Some [c]"
        and pn: "pos ident = None" by simp_all
      show "\<exists>m''. get_and_mark_as_queried m' ident = Inr (([], bool_t), m'')"
        using find_named_flag [OF c sn] assert_no_overlap_ok [OF o] pn n
        by (simp add: get_and_mark_as_queried_def instant_assert_def Let_def)
    qed
    show "named m' = ?tab \<and> positional m' = []
           \<and> (\<forall>c \<in> set cs. \<forall>ident.
                 identifier_name [c] = Inr ident
                 \<and> (\<forall>it \<in> set (queried m'). \<not> overlaps it ident)
                 \<longrightarrow> (\<exists>m''. get_and_mark_as_queried m' ident = Inr (([], bool_t), m'')))"
      using n ps q by blast
  qed
  have d: "\<And>pre post.
             \<not> space_assignment m \<or> post = [] \<or> named_token_candidate (hd post) \<Longrightarrow>
             parse m (exe # pre @ [CHR ''-'' # cs] @ post)
               = parse m (exe # pre @ map (\<lambda>c. [CHR ''-'', c]) cs @ post)"
    by (rule parse_bundle_context [OF assms])
  have e: "\<And>m1 nm ps tn rest.
             separate_loop m1 nm ps tn ((CHR ''-'' # cs) # rest)
               = separate_loop m1 (nm @ [CHR ''-'' # cs]) ps (length cs = 1) rest"
    by (rule separate_loop_bundle_step [OF assms])
  have f: "\<And>m1 sp rest.
             split_loop m1 sp ((CHR ''-'' # cs) # rest)
               = split_loop m1 (sp @ [(CHR ''-'' # cs, False)]) rest"
    by (rule split_loop_bundle [OF assms(2)])
  have g: "\<And>m1 args rest.
             assign_loop m1 args ((CHR ''-'' # cs, False) # rest)
               = assign_loop m1 (args @ map (\<lambda>c. ([c], None)) cs) rest"
    by (rule assign_loop_bundle [OF assms])
  have h: "\<And>post.
             (length cs \<ge> 2 \<or> \<not> space_assignment m) \<and> (\<forall>s \<in> set post. count_hyphens s = 0)
             \<Longrightarrow> (strict m \<longrightarrow> (\<exists>m'. parse m (exe # (CHR ''-'' # cs) # post) = Inr m'))
               \<and> (\<forall>m'. parse m (exe # (CHR ''-'' # cs) # post) = Inr m' \<longrightarrow>
                     named m' = map (\<lambda>c. ([c], None)) cs \<and> positional m' = post)"
    using bundle_then_plain_tables [OF assms, of m _ exe] by blast
  have first: "parse m [exe, CHR ''-'' # cs] = parse m (exe # map (\<lambda>c. [CHR ''-'', c]) cs)
       \<and> (strict m \<or> distinct cs \<longrightarrow> (\<exists>m'. parse m [exe, CHR ''-'' # cs] = Inr m'))
       \<and> (\<forall>m'. parse m [exe, CHR ''-'' # cs] = Inr m' \<longrightarrow>
             named m' = map (\<lambda>c. ([c], None)) cs \<and> positional m' = []
           \<and> (\<forall>c \<in> set cs. \<forall>ident.
                 identifier_name [c] = Inr ident
                 \<and> (\<forall>it \<in> set (queried m'). \<not> overlaps it ident)
                 \<longrightarrow> (\<exists>m''. get_and_mark_as_queried m' ident = Inr (([], bool_t), m''))))"
    using a b1 b2 c by blast
  have ctx: "(\<forall>pre post.
             \<not> space_assignment m \<or> post = [] \<or> named_token_candidate (hd post) \<longrightarrow>
             parse m (exe # pre @ [CHR ''-'' # cs] @ post)
               = parse m (exe # pre @ map (\<lambda>c. [CHR ''-'', c]) cs @ post))
       \<and> (\<forall>m1 nm ps tn rest.
             separate_loop m1 nm ps tn ((CHR ''-'' # cs) # rest)
               = separate_loop m1 (nm @ [CHR ''-'' # cs]) ps (length cs = 1) rest)
       \<and> (\<forall>m1 sp rest.
             split_loop m1 sp ((CHR ''-'' # cs) # rest)
               = split_loop m1 (sp @ [(CHR ''-'' # cs, False)]) rest)
       \<and> (\<forall>m1 args rest.
             assign_loop m1 args ((CHR ''-'' # cs, False) # rest)
               = assign_loop m1 (args @ map (\<lambda>c. ([c], None)) cs) rest)
       \<and> (\<forall>post.
             (length cs \<ge> 2 \<or> \<not> space_assignment m) \<and> (\<forall>s \<in> set post. count_hyphens s = 0)
             \<longrightarrow> (strict m \<longrightarrow> (\<exists>m'. parse m (exe # (CHR ''-'' # cs) # post) = Inr m'))
               \<and> (\<forall>m'. parse m (exe # (CHR ''-'' # cs) # post) = Inr m' \<longrightarrow>
                     named m' = map (\<lambda>c. ([c], None)) cs \<and> positional m' = post))"
  proof (intro conjI allI)
    fix pre post
    show "\<not> space_assignment m \<or> post = [] \<or> named_token_candidate (hd post) \<longrightarrow>
             parse m (exe # pre @ [CHR ''-'' # cs] @ post)
               = parse m (exe # pre @ map (\<lambda>c. [CHR ''-'', c]) cs @ post)"
      using d by blast
  next
    fix m1 nm ps tn rest
    show "separate_loop m1 nm ps tn ((CHR ''-'' # cs) # rest)
               = separate_loop m1 (nm @ [CHR ''-'' # cs]) ps (length cs = 1) rest"
      by (rule e)
  next
    fix m1 sp rest
    show "split_loop m1 sp ((CHR ''-'' # cs) # rest)
               = split_loop m1 (sp @ [(CHR ''-'' # cs, False)]) rest"
      by (rule f)
  next
    fix m1 args rest
    show "assign_loop m1 args ((CHR ''-'' # cs, False) # rest)
               = assign_loop m1 (args @ map (\<lambda>c. ([c], None)) cs) rest"
      by (rule g)
  next
    fix post
    show "(length cs \<ge> 2 \<or> \<not> space_assignment m) \<and> (\<forall>s \<in> set post. count_hyphens s = 0)
             \<longrightarrow> (strict m \<longrightarrow> (\<exists>m'. parse m (exe # (CHR ''-'' # cs) # post) = Inr m'))
               \<and> (\<forall>m'. parse m (exe # (CHR ''-'' # cs) # post) = Inr m' \<longrightarrow>
                     named m' = map (\<lambda>c. ([c], None)) cs \<and> positional m' = post)"
      using h [of post] by blast
  qed
  show ?thesis
    by (rule conjI [OF first [THEN conjunct1]
              conjI [OF first [THEN conjunct2, THEN conjunct1]
                conjI [OF first [THEN conjunct2, THEN conjunct2] ctx]]])
qed

theorem bundled_flags_expand_witness:
  "parse (matcher_new 3 False True) [''prog'', ''-abc'']
     = parse (matcher_new 3 False True) [''prog'', ''-a'', ''-b'', ''-c'']
   \<and> (\<exists>m'. parse (matcher_new 3 False True) [''prog'', ''-abc''] = Inr m'
          \<and> named m' = [(''a'', None), (''b'', None), (''c'', None)])
   \<and> parse (matcher_new 3 False True) [''prog'', ''--xy'', ''-abc'', ''file.txt'']
     = parse (matcher_new 3 False True) [''prog'', ''--xy'', ''-a'', ''-b'', ''-c'', ''file.txt'']"
proof -
  have h1: "''abc'' \<noteq> []" by simp
  have h2: "\<forall>c \<in> set ''abc''. \<not> isdigit c \<and> c \<noteq> CHR ''-'' \<and> c \<noteq> CHR ''=''"
    by (simp add: isdigit_def)
  have h3: "strict (matcher_new 3 False True)" by (simp add: matcher_new_def)
  have h4: "\<not> space_assignment (matcher_new 3 False True)" by (simp add: matcher_new_def)
  note t = bundled_flags_expand [OF h1 h2, of "matcher_new 3 False True" "''prog''"]
  from t have a: "parse (matcher_new 3 False True) [''prog'', ''-abc'']
     = parse (matcher_new 3 False True) [''prog'', ''-a'', ''-b'', ''-c'']" by simp
  from t h3 obtain m' where p: "parse (matcher_new 3 False True) [''prog'', ''-abc''] = Inr m'"
    by blast
  from t p have "named m' = map (\<lambda>c. ([c], None)) ''abc''" by blast
  then have n: "named m' = [(''a'', None), (''b'', None), (''c'', None)]" by simp
  from t [THEN conjunct2, THEN conjunct2, THEN conjunct2, THEN conjunct1, rule_format,
          of "[''file.txt'']" "[''--xy'']"] h4
  have c: "parse (matcher_new 3 False True) [''prog'', ''--xy'', ''-abc'', ''file.txt'']
     = parse (matcher_new 3 False True) [''prog'', ''--xy'', ''-a'', ''-b'', ''-c'', ''file.txt'']"
    by simp
  show ?thesis
  proof (intro conjI exI [of _ m'])
    show "parse (matcher_new 3 False True) [''prog'', ''-abc'']
            = parse (matcher_new 3 False True) [''prog'', ''-a'', ''-b'', ''-c'']" by (rule a)
    show "parse (matcher_new 3 False True) [''prog'', ''-abc''] = Inr m'" by (rule p)
    show "named m' = [(''a'', None), (''b'', None), (''c'', None)]" by (rule n)
    show "parse (matcher_new 3 False True) [''prog'', ''--xy'', ''-abc'', ''file.txt'']
     = parse (matcher_new 3 False True) [''prog'', ''--xy'', ''-a'', ''-b'', ''-c'', ''file.txt'']"
      by (rule c)
  qed
qed

section \<open>Equals assignment and space assignment\<close>

lemma parse_assign_exit:
  assumes "separate_named_positional (m\<lparr>executable := exe\<rparr>) raw = Inr ((nm, ps), m1)"
    and "split_equations (m1\<lparr>positional := ps\<rparr>) nm = Inr (sp, m2)"
    and "assign_named_values m2 sp = Inl e"
  shows "parse m (exe # raw) = Inl e"
  using assms by (simp add: parse_def)

lemma count_hyphens_before_equals:
  "count_hyphens name = 0 \<Longrightarrow> count_hyphens (name @ CHR ''='' # v) = 0"
  by (cases name) (auto split: if_splits)

lemma parse_equals_form:
  assumes "count_hyphens name = 0" and "CHR ''='' \<notin> set name"
  shows "parse m [exe, ''--'' @ name @ ''='' @ v] =
           (case deferred_assert (m\<lparr>executable := exe, positional := []\<rparr>) identifier_vector
                   (length name \<ge> 2)
                   (''single character parameter '' @ ''--'' @ name
                    @ '' must have exactly one hyphen'') of
              Inl e \<Rightarrow> Inl e
            | Inr r \<Rightarrow> occurrence_outer ((snd r)\<lparr>named := [(name, Some v)]\<rparr>) []
                        [(name, Some v)])"
proof -
  let ?t = "''--'' @ name @ ''='' @ v"
  let ?m2 = "m\<lparr>executable := exe, positional := []\<rparr>"
  have h: "count_hyphens ?t = 2"
    using count_hyphens_before_equals [OF assms(1), of v] by simp
  have "CHR ''='' \<notin> set (''--'' @ name)" using assms(2) by simp
  from find_char_append [OF this, of v]
  have f: "find_char ?t CHR ''='' = Some (length name + 2)" by simp
  have tk: "take (length name + 2) ?t = ''--'' @ name"
    and dr: "drop (Suc (length name + 2)) ?t = v" by simp_all
  have sep: "separate_named_positional (m\<lparr>executable := exe\<rparr>) [?t]
               = Inr (([?t], []), m\<lparr>executable := exe\<rparr>)"
    unfolding separate_named_positional_def separate_loop.simps Let_def h by simp
  have spl: "split_equations ?m2 [?t] = Inr ([(''--'' @ name, False), (v, True)], ?m2)"
    unfolding split_equations_def split_loop.simps Let_def h f option.case by (simp add: tk dr)
  have hn: "count_hyphens (''--'' @ name) = 2" using assms(1) by simp
  show ?thesis
  proof (cases "deferred_assert ?m2 identifier_vector (length name \<ge> 2)
                   (''single character parameter '' @ ''--'' @ name
                    @ '' must have exactly one hyphen'')")
    case (Inl e)
    have "assign_named_values ?m2 [(''--'' @ name, False), (v, True)] = Inl e"
      unfolding assign_named_values_def assign_loop.simps Let_def fst_conv snd_conv hn
      using Inl by simp
    from parse_assign_exit [OF sep spl this] Inl show ?thesis by simp
  next
    case (Inr r)
    have "assign_named_values ?m2 [(''--'' @ name, False), (v, True)]
            = Inr ([(name, Some v)], snd r)"
      unfolding assign_named_values_def assign_loop.simps Let_def fst_conv snd_conv hn
      using Inr by (simp add: set_back_def)
    from parse_after_assign [OF sep spl this] Inr show ?thesis by simp
  qed
qed

lemma parse_space_form:
  assumes "space_assignment m"
    and "count_hyphens name = 0" and "CHR ''='' \<notin> set name"
    and "CHR ''='' \<notin> set v"
    and "count_hyphens v = 0 \<or> (count_hyphens v = 1 \<and> isdigit (str_at v 1))"
  shows "parse m [exe, ''--'' @ name, v] =
           (case deferred_assert (m\<lparr>executable := exe, positional := []\<rparr>) identifier_vector
                   (length name \<ge> 2)
                   (''single character parameter '' @ ''--'' @ name
                    @ '' must have exactly one hyphen'') of
              Inl e \<Rightarrow> Inl e
            | Inr r \<Rightarrow> occurrence_outer ((snd r)\<lparr>named := [(name, Some v)]\<rparr>) []
                        [(name, Some v)])"
proof -
  let ?t = "''--'' @ name"
  let ?m2 = "m\<lparr>executable := exe, positional := []\<rparr>"
  have h: "count_hyphens ?t = 2" using assms(2) by simp
  have "CHR ''='' \<notin> set ?t" using assms(3) by simp
  then have f: "find_char ?t CHR ''='' = None" by (simp only: find_char_None simp_thms)
  have fv: "find_char v CHR ''='' = None" using assms(4) by (simp only: find_char_None simp_thms)
  have hv: "count_hyphens v \<le> 2" using assms(5) by auto
  have nc: "\<not> (count_hyphens v = 2 \<or>
              (count_hyphens v = 1 \<and> int (length v) - int (count_hyphens v) \<ge> 1
               \<and> \<not> isdigit (str_at v 1)))"
    using assms(5) by auto
  have sep: "separate_named_positional (m\<lparr>executable := exe\<rparr>) [?t, v]
               = Inr (([?t, v], []), m\<lparr>executable := exe\<rparr>)"
    unfolding separate_named_positional_def separate_loop.simps Let_def h f
    using hv nc assms(1) by simp
  have spl: "split_equations ?m2 [?t, v] = Inr ([(?t, False), (v, False)], ?m2)"
    unfolding split_equations_def split_loop.simps Let_def f fv by simp
  show ?thesis
  proof (cases "deferred_assert ?m2 identifier_vector (length name \<ge> 2)
                   (''single character parameter '' @ ''--'' @ name
                    @ '' must have exactly one hyphen'')")
    case (Inl e)
    have "assign_named_values ?m2 [(?t, False), (v, False)] = Inl e"
      unfolding assign_named_values_def assign_loop.simps(2) [of _ _ "(?t, False)"]
        Let_def fst_conv snd_conv h
      using Inl by simp
    from parse_assign_exit [OF sep spl this] Inl show ?thesis by simp
  next
    case (Inr r)
    have "assign_named_values ?m2 [(?t, False), (v, False)]
            = Inr ([(name, Some v)], snd r)"
      unfolding assign_named_values_def assign_loop.simps(2) [of _ _ "(?t, False)"]
        Let_def fst_conv snd_conv h
      using Inr assms(5) by (auto simp: set_back_def str_at_def Let_def)
    from parse_after_assign [OF sep spl this] Inr show ?thesis by simp
  qed
qed

text \<open>
  C8, as the specification states it, fails: a value that starts with a hyphen followed
  by a non-digit is a named token of its own, so \<open>--name -x\<close> gives two flags where
  \<open>--name=-x\<close> gives the value \<open>-x\<close> to \<open>name\<close>.
\<close>

theorem hyphenated_value_is_not_space_assigned:
  "space_assignment (matcher_new 1 True True)
   \<and> parse (matcher_new 1 True True) [''prog'', ''--name=-x'']
       = Inr ((matcher_new 1 True True)
                \<lparr>executable := ''prog'', named := [(''name'', Some ''-x'')]\<rparr>)
   \<and> parse (matcher_new 1 True True) [''prog'', ''--name'', ''-x'']
       = Inr ((matcher_new 1 True True)
                \<lparr>executable := ''prog'', named := [(''name'', None), (''x'', None)]\<rparr>)
   \<and> parse (matcher_new 1 True True) [''prog'', ''--name=-x'']
       \<noteq> parse (matcher_new 1 True True) [''prog'', ''--name'', ''-x'']"
  by (simp add: parse_def separate_named_positional_def split_equations_def
        assign_named_values_def matcher_new_def Let_def set_back_def str_at_def isdigit_def)

text \<open>
  C8 (amended): with space assignment enabled, for every name without a hyphen prefix and
  without an equals sign, and every value without an equals sign that has no hyphen
  prefix or is a single hyphen followed by a digit, the token \<open>--name=value\<close> and the two
  tokens \<open>--name\<close>, \<open>value\<close> are parsed to the same result. The parse returns in strict
  mode and whenever the name has two characters or more; when it returns, the named table
  is the single entry of the name with the value, and a query of an identifier that
  contains the name returns the value with kind \<open>string_t\<close>.
\<close>

theorem equals_form_agrees_with_space_form:
  assumes "space_assignment m"
    and "count_hyphens name = 0" and "CHR ''='' \<notin> set name"
    and "CHR ''='' \<notin> set v"
    and "count_hyphens v = 0 \<or> (count_hyphens v = 1 \<and> isdigit (str_at v 1))"
  shows "parse m [exe, ''--'' @ name @ ''='' @ v] = parse m [exe, ''--'' @ name, v]
       \<and> (strict m \<or> length name \<ge> 2 \<longrightarrow> (\<exists>m'. parse m [exe, ''--'' @ name, v] = Inr m'))
       \<and> (\<forall>m'. parse m [exe, ''--'' @ name, v] = Inr m' \<longrightarrow>
             named m' = [(name, Some v)] \<and> positional m' = []
           \<and> (\<forall>ident. contains_name ident name \<and> pos ident = None
                 \<and> (\<forall>it \<in> set (queried m'). \<not> overlaps it ident)
                 \<longrightarrow> (\<exists>m''. get_and_mark_as_queried m' ident = Inr ((v, string_t), m''))))"
proof -
  let ?m2 = "m\<lparr>executable := exe, positional := []\<rparr>"
  let ?d = "deferred_assert ?m2 identifier_vector (length name \<ge> 2)
                   (''single character parameter '' @ ''--'' @ name
                    @ '' must have exactly one hyphen'')"
  note l = parse_equals_form [OF assms(2,3), of m exe v]
  note r = parse_space_form [OF assms, of exe]
  have a: "parse m [exe, ''--'' @ name @ ''='' @ v] = parse m [exe, ''--'' @ name, v]"
    using l r by simp
  have b: "strict m \<or> length name \<ge> 2 \<Longrightarrow> \<exists>m'. parse m [exe, ''--'' @ name, v] = Inr m'"
    unfolding r by (auto simp: deferred_assert_strict)
  have c: "\<And>m'. parse m [exe, ''--'' @ name, v] = Inr m' \<Longrightarrow>
             named m' = [(name, Some v)] \<and> positional m' = []
           \<and> (\<forall>ident. contains_name ident name \<and> pos ident = None
                 \<and> (\<forall>it \<in> set (queried m'). \<not> overlaps it ident)
                 \<longrightarrow> (\<exists>m''. get_and_mark_as_queried m' ident = Inr ((v, string_t), m'')))"
  proof -
    fix m'
    assume p: "parse m [exe, ''--'' @ name, v] = Inr m'"
    then obtain r5 where d: "?d = Inr r5" and m': "m' = (snd r5)\<lparr>named := [(name, Some v)]\<rparr>"
      unfolding r by (auto split: sum.splits)
    from deferred_assert_Inr [OF d] m'
    have n: "named m' = [(name, Some v)]" and ps: "positional m' = []"
      by (simp_all add: same_but_slot_def)
    have "\<And>ident. contains_name ident name \<Longrightarrow> pos ident = None \<Longrightarrow>
            \<forall>it \<in> set (queried m'). \<not> overlaps it ident \<Longrightarrow>
            \<exists>m''. get_and_mark_as_queried m' ident = Inr ((v, string_t), m'')"
      using n by (simp add: get_and_mark_as_queried_def assert_no_overlap_ok Let_def
                     instant_assert_def)
    then show "named m' = [(name, Some v)] \<and> positional m' = []
           \<and> (\<forall>ident. contains_name ident name \<and> pos ident = None
                 \<and> (\<forall>it \<in> set (queried m'). \<not> overlaps it ident)
                 \<longrightarrow> (\<exists>m''. get_and_mark_as_queried m' ident = Inr ((v, string_t), m'')))"
      using n ps by blast
  qed
  show ?thesis using a b c by blast
qed

theorem equals_form_agrees_with_space_form_witness:
  "parse (matcher_new 1 True True) [''prog'', ''--count=-5'']
     = parse (matcher_new 1 True True) [''prog'', ''--count'', ''-5'']
   \<and> (\<exists>m'. parse (matcher_new 1 True True) [''prog'', ''--count'', ''-5''] = Inr m'
          \<and> named m' = [(''count'', Some ''-5'')])"
proof -
  have h1: "space_assignment (matcher_new 1 True True)"
    and h6: "strict (matcher_new 1 True True)" by (simp_all add: matcher_new_def)
  have h2: "count_hyphens ''count'' = 0" and h3: "CHR ''='' \<notin> set ''count''"
    and h4: "CHR ''='' \<notin> set ''-5''" by simp_all
  have h5: "count_hyphens ''-5'' = 0 \<or> (count_hyphens ''-5'' = 1 \<and> isdigit (str_at ''-5'' 1))"
    by (simp add: isdigit_def str_at_def)
  note t = equals_form_agrees_with_space_form [OF h1 h2 h3 h4 h5, of "''prog''"]
  from t have a: "parse (matcher_new 1 True True) [''prog'', ''--count=-5'']
     = parse (matcher_new 1 True True) [''prog'', ''--count'', ''-5'']" by simp
  from t h6 have "\<exists>m'. parse (matcher_new 1 True True) [''prog'', ''--count'', ''-5''] = Inr m'"
    by simp
  then obtain m' where
    p: "parse (matcher_new 1 True True) [''prog'', ''--count'', ''-5''] = Inr m'" by blast
  from t p have n: "named m' = [(''count'', Some ''-5'')]" by simp
  show ?thesis
  proof (intro conjI exI [of _ m'])
    show "parse (matcher_new 1 True True) [''prog'', ''--count=-5'']
     = parse (matcher_new 1 True True) [''prog'', ''--count'', ''-5'']" by (rule a)
    show "parse (matcher_new 1 True True) [''prog'', ''--count'', ''-5''] = Inr m'" by (rule p)
    show "named m' = [(''count'', Some ''-5'')]" by (rule n)
  qed
qed

section \<open>Integer coercion and the range of the target type\<close>

lemma isdigit_not_sign: "isdigit c \<Longrightarrow> c \<noteq> CHR ''-'' \<and> c \<noteq> CHR ''+'' \<and> \<not> isspace c"
  by (auto simp: isdigit_def isspace_def)

lemma sign_not_space: "\<not> isspace CHR ''-''" "\<not> isspace CHR ''+''"
  by (simp_all add: isspace_def)

lemma takeWhile_isdigit_all: "list_all isdigit ds \<Longrightarrow> takeWhile isdigit ds = ds"
  by (induction ds) auto

lemma stoll_signed:
  assumes "c = CHR ''-'' \<or> c = CHR ''+''" and "cs \<noteq> []" and "list_all isdigit cs"
  shows "stoll (c # cs) =
           (if (if c = CHR ''-'' then - digits_value 0 cs else digits_value 0 cs) < LLONG_MIN
               \<or> LLONG_MAX < (if c = CHR ''-'' then - digits_value 0 cs else digits_value 0 cs)
            then Out_of_range
            else Converted (if c = CHR ''-'' then - digits_value 0 cs else digits_value 0 cs)
                   (Suc (length cs)))"
proof -
  have ns: "\<not> isspace c" using assms(1) sign_not_space by auto
  have tw: "takeWhile isdigit cs = cs" using assms(3) by (rule takeWhile_isdigit_all)
  have ws: "takeWhile isspace (c # cs) = []" "dropWhile isspace (c # cs) = c # cs"
    using ns by simp_all
  show ?thesis
  proof (cases "c = CHR ''-''")
    case True
    then show ?thesis unfolding stoll_def Let_def ws using assms(2) by (simp add: tw)
  next
    case False
    then have "c = CHR ''+''" using assms(1) by simp
    then show ?thesis unfolding stoll_def Let_def ws using assms(2) by (simp add: tw)
  qed
qed

lemma stoll_unsigned:
  assumes "list_all isdigit (c # cs)"
  shows "stoll (c # cs) =
           (if digits_value 0 (c # cs) < LLONG_MIN \<or> LLONG_MAX < digits_value 0 (c # cs)
            then Out_of_range
            else Converted (digits_value 0 (c # cs)) (Suc (length cs)))"
proof -
  have dc: "isdigit c" using assms by simp
  from isdigit_not_sign [OF this] have ns: "\<not> isspace c"
    and sg: "c \<noteq> CHR ''-''" "c \<noteq> CHR ''+''" by simp_all
  have "list_all isdigit cs" using assms by simp
  then have tw: "takeWhile isdigit cs = cs" by (rule takeWhile_isdigit_all)
  have ws: "takeWhile isspace (c # cs) = []" "dropWhile isspace (c # cs) = c # cs"
    using ns by simp_all
  show ?thesis
    unfolding stoll_def Let_def ws using sg dc by (simp add: tw)
qed

lemma stoll_decimal:
  assumes "decimal_integer str = Some v"
  shows "stoll str = (if v < LLONG_MIN \<or> LLONG_MAX < v then Out_of_range
                      else Converted v (length str))"
proof (cases str)
  case Nil
  then show ?thesis using assms by (simp add: decimal_integer_def)
next
  case (Cons c cs)
  show ?thesis
  proof (cases "c = CHR ''-'' \<or> c = CHR ''+''")
    case True
    from True assms Cons have ds: "cs \<noteq> []" "list_all isdigit cs"
      and v: "v = (if c = CHR ''-'' then - digits_value 0 cs else digits_value 0 cs)"
      by (auto simp: decimal_integer_def Let_def split: if_splits)
    show ?thesis
      unfolding Cons stoll_signed [OF True ds] v by simp
  next
    case False
    from False assms Cons have ds: "list_all isdigit (c # cs)"
      and v: "v = digits_value 0 (c # cs)"
      by (auto simp: decimal_integer_def Let_def split: if_splits)
    show ?thesis
      unfolding Cons stoll_unsigned [OF ds] v by simp
  qed
qed

lemma decimal_integer_nonempty: "decimal_integer str = Some v \<Longrightarrow> str \<noteq> []"
  by (auto simp: decimal_integer_def Let_def)

text \<open>The text that \<^verbatim>\<open>std::to_string\<close> prints for an integer is a decimal integer of
  that value.\<close>

lemma digits_value_snoc:
  "digits_value acc (xs @ [c]) = 10 * digits_value acc xs + (int (of_char c) - 48)"
  by (induction xs arbitrary: acc) simp_all

lemma digit_char:
  "k < 10 \<Longrightarrow> isdigit (char_of (48 + k)) \<and> int (of_char (char_of (48 + k))) - 48 = int k"
  by (simp add: isdigit_def)

lemma digits_of_nat_decimal:
  "digits_of_nat n \<noteq> [] \<and> list_all isdigit (digits_of_nat n)
   \<and> digits_value 0 (digits_of_nat n) = int n"
proof (induction n rule: digits_of_nat.induct)
  case (1 n)
  show ?case
  proof (cases "n < 10")
    case True
    then show ?thesis using digit_char [OF True] by (simp add: digits_of_nat.simps [of n])
  next
    case False
    have "n mod 10 < 10" by simp
    moreover have "10 * int (n div 10) + int (n mod 10) = int n"
      by (metis mult_div_mod_eq of_nat_add of_nat_mult of_nat_numeral)
    ultimately show ?thesis using digit_char [of "n mod 10"] 1 [OF False] False
      by (simp add: digits_of_nat.simps [of n] digits_value_snoc)
  qed
qed

lemma decimal_integer_to_string: "decimal_integer (to_string v) = Some v"
proof (cases "v < 0")
  case True
  then show ?thesis using digits_of_nat_decimal [of "nat (- v)"]
    by (simp add: decimal_integer_def to_string_def)
next
  case False
  from digits_of_nat_decimal [of "nat v"] obtain c cs where
    d: "digits_of_nat (nat v) = c # cs" and "isdigit c"
    by (cases "digits_of_nat (nat v)") auto
  from isdigit_not_sign [OF this(2)] d digits_of_nat_decimal [of "nat v"] False
  show ?thesis by (simp add: decimal_integer_def to_string_def)
qed

lemma cast_in_range:
  assumes "bits T \<in> {8, 16, 32, 64}" and "lowest T \<le> v" and "v \<le> max_of T"
  shows "cast T v = v"
  using assms by (auto simp: cast_def lowest_def max_of_def split: if_splits)

lemma range_check_exact:
  assumes "bits T \<in> {8, 16, 32, 64}" and "LLONG_MIN \<le> v" and "v \<le> LLONG_MAX"
  shows "(is_signed T \<or> v \<ge> 0)
         \<and> (in_common_type T (lowest T) \<le> in_common_type T v
              \<and> in_common_type T v \<le> in_common_type T (max_of T))
         \<longleftrightarrow> lowest T \<le> v \<and> v \<le> max_of T"
  using assms
  by (auto simp: in_common_type_def lowest_def max_of_def LLONG_MIN_def LLONG_MAX_def)

lemma first_set_twice:
  "first_set i msg2 (first_set i msg1 s) = first_set i msg1 s"
  by (simp add: first_set_def identifier_less_irrefl)

lemma deferred_assert_fail:
  "deferred_assert m i False msg =
     (if strict m then Inr (False, m\<lparr>deferred_error := first_set i msg (deferred_error m)\<rparr>)
      else Inl (Exit failure_code
                  (if msg \<noteq> [] then Error_line (''Error: '' @ msg) else Silent)))"
  by (simp add: deferred_assert_def instant_assert_def)

lemma get_long_long_in_range:
  assumes "get_and_mark_as_queried m (arg_id a) = Inr ((str, string_t), m1)"
    and "decimal_integer str = Some v" and "LLONG_MIN \<le> v" and "v \<le> LLONG_MAX"
  shows "get_long_long m a = Inr (Some v, m1)"
  using assms stoll_decimal [OF assms(2)]
  by (simp add: get_long_long_def get_long_long_finish_def)

lemma get_long_long_overflow:
  assumes "get_and_mark_as_queried m (arg_id a) = Inr ((str, string_t), m1)"
    and "decimal_integer str = Some v" and "v < LLONG_MIN \<or> LLONG_MAX < v"
  shows "get_long_long m a =
           (if strict m
            then Inr (Some 0, m1\<lparr>deferred_error :=
                        first_set (arg_id a) (''value '' @ str @ '' out of range'')
                          (deferred_error m1)\<rparr>)
            else Inl (Exit failure_code (Error_line (''Error: value '' @ str @ '' out of range''))))"
proof -
  have st: "strict m1 = strict m" using query_Inr [OF assms(1)] by (simp split: if_splits)
  have ne: "str \<noteq> []" using assms(2) by (rule decimal_integer_nonempty)
  have so: "stoll str = Out_of_range" using stoll_decimal [OF assms(2)] assms(3) by auto
  show ?thesis
    using assms(1) st ne
    by (simp add: get_long_long_def get_long_long_finish_def so deferred_assert_fail
          first_set_twice)
qed

text \<open>
  C2, as the specification states it, fails for an unsigned 64-bit target: the decimal
  string of \<open>2 ^ 63\<close> lies within the range of the target, yet the parse through
  \<^verbatim>\<open>long long\<close> reports it out of range and the coercion returns 0.
\<close>

theorem unsigned_64_bit_value_rejected:
  "decimal_integer ''9223372036854775808'' = Some 9223372036854775808
   \<and> lowest \<lparr>is_signed = False, bits = 64\<rparr> \<le> 9223372036854775808
   \<and> 9223372036854775808 \<le> max_of \<lparr>is_signed = False, bits = 64\<rparr>
   \<and> get_with_precision \<lparr>is_signed = False, bits = 64\<rparr>
        ((matcher_new 1 False True)\<lparr>named := [(''num'', Some ''9223372036854775808'')]\<rparr>)
        \<lparr>arg_id = \<lparr>short_name = None, long_name = Some ''num'', pos = None, vector = False,
                   help_str = ''--num'', longer = ''--num''\<rparr>,
         descr = [], int_value = None, string_value = None\<rparr>
      = Inr (Some 0,
             (matcher_new 1 False True)
               \<lparr>named := [(''num'', Some ''9223372036854775808'')],
                queried := [\<lparr>short_name = None, long_name = Some ''num'', pos = None,
                              vector = False, help_str = ''--num'', longer = ''--num''\<rparr>],
                deferred_error :=
                  \<lparr>slot_order = \<lparr>short_name = None, long_name = Some ''num'', pos = None,
                                  vector = False, help_str = ''--num'', longer = ''--num''\<rparr>,
                   slot_value = ''value 9223372036854775808 out of range'',
                   slot_empty = False\<rparr>\<rparr>)"
  by (simp add: decimal_integer_def isdigit_def lowest_def max_of_def get_with_precision_def
        get_long_long_def get_long_long_finish_def get_and_mark_as_queried_def matcher_new_def
        contains_name_def stoll_def isspace_def LLONG_MIN_def LLONG_MAX_def Let_def
        deferred_assert_def first_set_def first_new_def in_common_type_def cast_def
        identifier_less_def value_or_def)

text \<open>
  C2 (amended): let the query of the argument find the string \<open>str\<close>, a decimal integer
  of value \<open>v\<close>, and let \<open>T\<close> be an integral type of 8, 16, 32 or 64 bits.
  If \<open>v\<close> fits both \<^verbatim>\<open>long long\<close> and \<open>T\<close>, the coercion returns exactly \<open>v\<close> and records
  no error. If \<open>v\<close> fits \<^verbatim>\<open>long long\<close> but not \<open>T\<close>, the error "must be positive" (negative
  value, unsigned \<open>T\<close>) or "out of range" is raised: outside strict mode the run ends with
  it, in strict mode it is recorded in the deferred error slot and the converted value is
  returned along with it. If \<open>v\<close> does not fit \<^verbatim>\<open>long long\<close>, "out of range" is raised in
  the same way and the value returned in strict mode is 0.
\<close>

theorem integer_coercion_range:
  assumes "bits T \<in> {8, 16, 32, 64}"
    and "get_and_mark_as_queried m (arg_id a) = Inr ((str, string_t), m1)"
    and "decimal_integer str = Some v"
  shows "(LLONG_MIN \<le> v \<and> v \<le> LLONG_MAX \<and> lowest T \<le> v \<and> v \<le> max_of T \<longrightarrow>
            get_with_precision T m a = Inr (Some v, m1))
       \<and> (LLONG_MIN \<le> v \<and> v \<le> LLONG_MAX \<and> \<not> (lowest T \<le> v \<and> v \<le> max_of T) \<longrightarrow>
            get_with_precision T m a =
              (if strict m
               then Inr (Some (cast T v),
                         m1\<lparr>deferred_error :=
                              first_set (arg_id a) (range_message T a v) (deferred_error m1)\<rparr>)
               else Inl (Exit failure_code (Error_line (''Error: '' @ range_message T a v)))))
       \<and> (v < LLONG_MIN \<or> LLONG_MAX < v \<longrightarrow>
            get_with_precision T m a =
              (if strict m
               then Inr (Some 0,
                         m1\<lparr>deferred_error :=
                              first_set (arg_id a) (''value '' @ str @ '' out of range'')
                                (deferred_error m1)\<rparr>)
               else Inl (Exit failure_code
                           (Error_line (''Error: value '' @ str @ '' out of range'')))))"
proof -
  have st: "strict m1 = strict m" using query_Inr [OF assms(2)] by (simp split: if_splits)
  have a: "LLONG_MIN \<le> v \<and> v \<le> LLONG_MAX \<and> lowest T \<le> v \<and> v \<le> max_of T \<longrightarrow>
            get_with_precision T m a = Inr (Some v, m1)"
  proof (intro impI)
    assume h: "LLONG_MIN \<le> v \<and> v \<le> LLONG_MAX \<and> lowest T \<le> v \<and> v \<le> max_of T"
    then have g: "get_long_long m a = Inr (Some v, m1)"
      using get_long_long_in_range [OF assms(2,3)] by simp
    from range_check_exact [OF assms(1), of v] h
    have p1: "is_signed T \<or> v \<ge> 0"
      and p2: "in_common_type T (lowest T) \<le> in_common_type T v
              \<and> in_common_type T v \<le> in_common_type T (max_of T)" by simp_all
    have c: "cast T v = v" using cast_in_range [OF assms(1)] h by simp
    show "get_with_precision T m a = Inr (Some v, m1)"
      by (simp add: get_with_precision_def g p1 p2 c)
  qed
  have b: "LLONG_MIN \<le> v \<and> v \<le> LLONG_MAX \<and> \<not> (lowest T \<le> v \<and> v \<le> max_of T) \<longrightarrow>
            get_with_precision T m a =
              (if strict m
               then Inr (Some (cast T v),
                         m1\<lparr>deferred_error :=
                              first_set (arg_id a) (range_message T a v) (deferred_error m1)\<rparr>)
               else Inl (Exit failure_code (Error_line (''Error: '' @ range_message T a v))))"
  proof (intro impI)
    assume h: "LLONG_MIN \<le> v \<and> v \<le> LLONG_MAX \<and> \<not> (lowest T \<le> v \<and> v \<le> max_of T)"
    then have g: "get_long_long m a = Inr (Some v, m1)"
      using get_long_long_in_range [OF assms(2,3)] by simp
    define rc where "rc = (in_common_type T (lowest T) \<le> in_common_type T v
              \<and> in_common_type T v \<le> in_common_type T (max_of T))"
    define sg where "sg = (is_signed T \<or> v \<ge> 0)"
    from range_check_exact [OF assms(1), of v] h
    have np: "\<not> (sg \<and> rc)" by (simp add: rc_def sg_def)
    have gwp: "get_with_precision T m a =
      (case deferred_assert m1 (arg_id a) sg
             (''argument '' @ help_str (arg_id a) @ '' must be positive'') of
        Inl e \<Rightarrow> Inl e
      | Inr r1 \<Rightarrow>
     (case deferred_assert (snd r1) (arg_id a) rc
             (''value '' @ to_string v @ '' out of range'') of
        Inl e \<Rightarrow> Inl e
      | Inr r2 \<Rightarrow> Inr (Some (cast T v), snd r2)))"
      unfolding get_with_precision_def g rc_def sg_def by simp
    show "get_with_precision T m a =
              (if strict m
               then Inr (Some (cast T v),
                         m1\<lparr>deferred_error :=
                              first_set (arg_id a) (range_message T a v) (deferred_error m1)\<rparr>)
               else Inl (Exit failure_code (Error_line (''Error: '' @ range_message T a v))))"
    proof (cases sg)
      case True
      then have rm: "range_message T a v = ''value '' @ to_string v @ '' out of range''"
        by (auto simp: range_message_def sg_def)
      from True np have "\<not> rc" by simp
      then show ?thesis using True st
        by (simp add: gwp rm deferred_assert_fail)
    next
      case False
      then have rm: "range_message T a v
                       = ''argument '' @ help_str (arg_id a) @ '' must be positive''"
        by (auto simp: range_message_def sg_def)
      show ?thesis
      proof (cases rc)
        case True
        then show ?thesis using False st
          by (simp add: gwp rm deferred_assert_fail)
      next
        case nr: False
        then show ?thesis using False st
          by (simp add: gwp rm deferred_assert_fail first_set_twice)
      qed
    qed
  qed
  have c: "v < LLONG_MIN \<or> LLONG_MAX < v \<longrightarrow>
            get_with_precision T m a =
              (if strict m
               then Inr (Some 0,
                         m1\<lparr>deferred_error :=
                              first_set (arg_id a) (''value '' @ str @ '' out of range'')
                                (deferred_error m1)\<rparr>)
               else Inl (Exit failure_code
                           (Error_line (''Error: value '' @ str @ '' out of range''))))"
  proof (intro impI)
    assume h: "v < LLONG_MIN \<or> LLONG_MAX < v"
    note g = get_long_long_overflow [OF assms(2,3) h]
    have z: "lowest T \<le> 0 \<and> 0 \<le> max_of T"
      using assms(1) by (auto simp: lowest_def max_of_def)
    have "LLONG_MIN \<le> 0" "0 \<le> LLONG_MAX" by (simp_all add: LLONG_MIN_def LLONG_MAX_def)
    from range_check_exact [OF assms(1) this] z
    have p1: "is_signed T \<or> (0::int) \<ge> 0"
      and p2: "in_common_type T (lowest T) \<le> in_common_type T 0
              \<and> in_common_type T 0 \<le> in_common_type T (max_of T)" by simp_all
    have c0: "cast T 0 = 0" using cast_in_range [OF assms(1)] z by simp
    show "get_with_precision T m a =
              (if strict m
               then Inr (Some 0,
                         m1\<lparr>deferred_error :=
                              first_set (arg_id a) (''value '' @ str @ '' out of range'')
                                (deferred_error m1)\<rparr>)
               else Inl (Exit failure_code
                           (Error_line (''Error: value '' @ str @ '' out of range''))))"
      using p2 by (simp add: get_with_precision_def g c0)
  qed
  show ?thesis using a b c by blast
qed

theorem integer_coercion_range_witness:
  "bits \<lparr>is_signed = True, bits = 8\<rparr> \<in> {8, 16, 32, 64}
   \<and> decimal_integer ''-128'' = Some (- 128)
   \<and> get_with_precision \<lparr>is_signed = True, bits = 8\<rparr>
        ((matcher_new 1 False True)\<lparr>named := [(''num'', Some ''-128'')]\<rparr>)
        \<lparr>arg_id = \<lparr>short_name = None, long_name = Some ''num'', pos = None, vector = False,
                   help_str = ''--num'', longer = ''--num''\<rparr>,
         descr = [], int_value = None, string_value = None\<rparr>
      = Inr (Some (- 128),
             (matcher_new 1 False True)
               \<lparr>named := [(''num'', Some ''-128'')],
                queried := [\<lparr>short_name = None, long_name = Some ''num'', pos = None,
                              vector = False, help_str = ''--num'', longer = ''--num''\<rparr>]\<rparr>)"
proof -
  let ?T = "\<lparr>is_signed = True, bits = 8\<rparr>"
  let ?id = "\<lparr>short_name = None, long_name = Some ''num'', pos = None, vector = False,
               help_str = ''--num'', longer = ''--num''\<rparr>"
  let ?a = "\<lparr>arg_id = ?id, descr = [], int_value = None, string_value = None\<rparr>"
  let ?m = "(matcher_new 1 False True)\<lparr>named := [(''num'', Some ''-128'')]\<rparr>"
  have h1: "bits ?T \<in> {8, 16, 32, 64}" by simp
  have h2: "get_and_mark_as_queried ?m (arg_id ?a)
              = Inr ((''-128'', string_t), ?m\<lparr>queried := [?id]\<rparr>)"
    by (simp add: get_and_mark_as_queried_def matcher_new_def contains_name_def)
  have h3: "decimal_integer ''-128'' = Some (- 128)"
    by (simp add: decimal_integer_def isdigit_def)
  have h4: "LLONG_MIN \<le> - 128 \<and> - 128 \<le> LLONG_MAX \<and> lowest ?T \<le> - 128 \<and> - 128 \<le> max_of ?T"
    by (simp add: LLONG_MIN_def LLONG_MAX_def lowest_def max_of_def)
  from integer_coercion_range [OF h1 h2 h3] h4
  have "get_with_precision ?T ?m ?a = Inr (Some (- 128), ?m\<lparr>queried := [?id]\<rparr>)" by blast
  then show ?thesis using h1 h3 by simp
qed

end
